theory Spec2Isabelle
  imports Complex_Main "HOL-Library.Multiset"
begin

section \<open>JavaScript values used by the server\<close>

text \<open>
  The development embeds \<^verbatim>\<open>server/index.js\<close>. A JavaScript string is a list of code
  units; the model covers the code units 0..255 (Latin-1), so the separator
  \<^verbatim>\<open>' \<cdot> '\<close> of the source is three characters. An absent, \<^verbatim>\<open>null\<close> or empty
  string field is the empty string: the source reads every such field through
  \<^verbatim>\<open>String(value || '')\<close> or a truthiness test, which do not tell them apart.
\<close>

definition js_whitespace :: "char \<Rightarrow> bool" where
  "js_whitespace c =
     (c \<in> set [CHR 0x09, CHR 0x0A, CHR 0x0B, CHR 0x0C, CHR 0x0D, CHR 0x20, CHR 0xA0])"

definition trim :: "string \<Rightarrow> string" where
  "trim s = rev (dropWhile js_whitespace (rev (dropWhile js_whitespace s)))"

definition upper_case_units :: string where
  "upper_case_units =
     ''ABCDEFGHIJKLMNOPQRSTUVWXYZ'' @
     [CHR 0xC0, CHR 0xC1, CHR 0xC2, CHR 0xC3, CHR 0xC4, CHR 0xC5, CHR 0xC6, CHR 0xC7,
      CHR 0xC8, CHR 0xC9, CHR 0xCA, CHR 0xCB, CHR 0xCC, CHR 0xCD, CHR 0xCE, CHR 0xCF,
      CHR 0xD0, CHR 0xD1, CHR 0xD2, CHR 0xD3, CHR 0xD4, CHR 0xD5, CHR 0xD6, CHR 0xD8,
      CHR 0xD9, CHR 0xDA, CHR 0xDB, CHR 0xDC, CHR 0xDD, CHR 0xDE]"

definition lower_case_units :: string where
  "lower_case_units =
     ''abcdefghijklmnopqrstuvwxyz'' @
     [CHR 0xE0, CHR 0xE1, CHR 0xE2, CHR 0xE3, CHR 0xE4, CHR 0xE5, CHR 0xE6, CHR 0xE7,
      CHR 0xE8, CHR 0xE9, CHR 0xEA, CHR 0xEB, CHR 0xEC, CHR 0xED, CHR 0xEE, CHR 0xEF,
      CHR 0xF0, CHR 0xF1, CHR 0xF2, CHR 0xF3, CHR 0xF4, CHR 0xF5, CHR 0xF6, CHR 0xF8,
      CHR 0xF9, CHR 0xFA, CHR 0xFB, CHR 0xFC, CHR 0xFD, CHR 0xFE]"

definition lower_char :: "char \<Rightarrow> char" where
  "lower_char c =
     (case map_of (zip upper_case_units lower_case_units) c of Some d \<Rightarrow> d | None \<Rightarrow> c)"

definition toLowerCase :: "string \<Rightarrow> string" where
  "toLowerCase s = map lower_char s"

definition startsWith :: "string \<Rightarrow> string \<Rightarrow> bool" where
  "startsWith s p = (take (length p) s = p)"

text \<open>\<^verbatim>\<open>s.replace(/[class]+/g, r)\<close>: every maximal run of characters of the class
  becomes one copy of \<open>r\<close>. The flag says whether the previous character was in a run.\<close>

fun replace_runs_from :: "(char \<Rightarrow> bool) \<Rightarrow> string \<Rightarrow> bool \<Rightarrow> string \<Rightarrow> string" where
  "replace_runs_from P r in_run [] = []"
| "replace_runs_from P r in_run (c # cs) =
     (if P c then (if in_run then replace_runs_from P r True cs
                   else r @ replace_runs_from P r True cs)
      else c # replace_runs_from P r False cs)"

definition replace_runs :: "(char \<Rightarrow> bool) \<Rightarrow> string \<Rightarrow> string \<Rightarrow> string" where
  "replace_runs P r s = replace_runs_from P r False s"

definition lower_alnum :: "char \<Rightarrow> bool" where
  "lower_alnum c = (c \<in> set ''abcdefghijklmnopqrstuvwxyz0123456789'')"

text \<open>\<^verbatim>\<open>s.toLowerCase().replace(/[^a-z0-9]+/g, '-')\<close>.\<close>

definition slugify :: "string \<Rightarrow> string" where
  "slugify s = replace_runs (\<lambda>c. \<not> lower_alnum c) ''-'' (toLowerCase s)"

text \<open>\<^verbatim>\<open>s.replace(/^-+|-+$/g, '')\<close>.\<close>

definition strip_dashes :: "string \<Rightarrow> string" where
  "strip_dashes s =
     rev (dropWhile (\<lambda>c. c = CHR ''-'') (rev (dropWhile (\<lambda>c. c = CHR ''-'') s)))"

text \<open>\<^verbatim>\<open>String(n)\<close> of an integer.\<close>

function decimal :: "int \<Rightarrow> string" where
  "decimal n =
     (if n < 10 then [''0123456789'' ! nat n]
      else decimal (n div 10) @ [''0123456789'' ! nat (n mod 10)])"
  by pat_completeness auto
termination
  by (relation "measure nat") auto

definition decimal_int :: "int \<Rightarrow> string" where
  "decimal_int i = (if i < 0 then CHR ''-'' # decimal (- i) else decimal i)"

text \<open>\<^verbatim>\<open>a || b\<close> on strings.\<close>

definition or_str :: "string \<Rightarrow> string \<Rightarrow> string" where
  "or_str a b = (if a = [] then b else a)"

subsection \<open>Timestamps\<close>

text \<open>
  A timestamp field holds nothing (absent, \<^verbatim>\<open>null\<close>, \<^verbatim>\<open>''\<close>), a string that
  \<^verbatim>\<open>Date.parse\<close> rejects, or a string that \<^verbatim>\<open>Date.parse\<close> reads as a number of
  milliseconds. \<^verbatim>\<open>Date.parse\<close> and \<^verbatim>\<open>Date.prototype.toISOString\<close> belong to the
  language, so a parseable string is identified with the instant it denotes; \<open>NaN\<close> is
  \<open>None\<close>.
\<close>

datatype stamp = NoStamp | BadStamp | Stamp int

definition Date_parse :: "stamp \<Rightarrow> int option" where
  "Date_parse v = (case v of Stamp ms \<Rightarrow> Some ms | _ \<Rightarrow> None)"

definition normalizeTimestamp :: "stamp \<Rightarrow> stamp" where
  "normalizeTimestamp v =
     (if v = NoStamp then NoStamp
      else case Date_parse v of None \<Rightarrow> NoStamp | Some ms \<Rightarrow> Stamp ms)"

text \<open>\<^verbatim>\<open>a || b\<close> on timestamp fields.\<close>

definition or_stamp :: "stamp \<Rightarrow> stamp \<Rightarrow> stamp" where
  "or_stamp a b = (if a = NoStamp then b else a)"

subsection \<open>Configuration\<close>

text \<open>The numbers the server reads from its environment, with the defaults of the source.
  Settings that are not integers are outside the model.\<close>

record config =
  HISTORY_LIMIT :: int
  PREVIEW_IMAGE_LIMIT :: int
  PREVIEW_IMAGE_MAX_LENGTH :: int
  AGENT_OFFLINE_TIMEOUT_SECONDS :: int

definition default_config :: config where
  "default_config =
     \<lparr>HISTORY_LIMIT = 5000, PREVIEW_IMAGE_LIMIT = 3,
      PREVIEW_IMAGE_MAX_LENGTH = 2 * 1024 * 1024, AGENT_OFFLINE_TIMEOUT_SECONDS = 45\<rparr>"

definition AGENT_OFFLINE_TIMEOUT_MS :: "config \<Rightarrow> int" where
  "AGENT_OFFLINE_TIMEOUT_MS cfg =
     (if AGENT_OFFLINE_TIMEOUT_SECONDS cfg > 0 then AGENT_OFFLINE_TIMEOUT_SECONDS cfg else 45)
       * 1000"

section \<open>Normalisers\<close>

definition taskKey :: "string \<Rightarrow> string \<Rightarrow> string" where
  "taskKey machineId taskId = machineId @ ''::'' @ taskId"

definition normalizeMachineFingerprint :: "string \<Rightarrow> string \<Rightarrow> string" where
  "normalizeMachineFingerprint v fallbackMachineId =
     (let raw = trim v in if raw \<noteq> [] then raw else trim fallbackMachineId)"

definition normalizeDisplayName :: "string \<Rightarrow> string" where
  "normalizeDisplayName v = or_str (trim v) []"

definition normalizeAgentName :: "string \<Rightarrow> string \<Rightarrow> string" where
  "normalizeAgentName v fallbackMachineId =
     (let raw = trim v
      in if raw \<noteq> [] then raw
         else (let fallback = trim fallbackMachineId in or_str fallback ''Unknown''))"

definition machineIdentityKey :: "string \<Rightarrow> string \<Rightarrow> string" where
  "machineIdentityKey fingerprint agentName = fingerprint @ ''::'' @ agentName"

definition middle_dot :: string where
  "middle_dot = [CHR 0x20, CHR 0xB7, CHR 0x20]"

fun composeTitleSeparators :: "string \<Rightarrow> string \<Rightarrow> string list \<Rightarrow> string" where
  "composeTitleSeparators custom agent [] = custom @ '' ('' @ agent @ '')''"
| "composeTitleSeparators custom agent (sep # seps) =
     (let prefix = custom @ sep
      in if \<not> startsWith agent prefix then composeTitleSeparators custom agent seps
         else (let suffix = trim (drop (length prefix) agent)
               in if suffix \<noteq> [] then custom @ '' ('' @ suffix @ '')''
                  else composeTitleSeparators custom agent seps))"

definition composeMachineTitle :: "string \<Rightarrow> string \<Rightarrow> string" where
  "composeMachineTitle displayName agentName =
     (let custom = normalizeDisplayName displayName;
          agent = normalizeAgentName agentName []
      in if custom = [] then agent
         else if agent = [] \<or> custom = agent then custom
         else composeTitleSeparators custom agent [middle_dot, '' / '', '' - ''])"

text \<open>
  The value of a \<^verbatim>\<open>status\<close> property. \<open>Text s\<close> is a string; the empty string also stands
  for an absent or \<^verbatim>\<open>null\<close> property, which \<^verbatim>\<open>String(status || '')\<close> does not tell
  apart. The lookup \<^verbatim>\<open>map[value]\<close> of \<^verbatim>\<open>normalizeTaskStatus\<close> finds the own properties of
  the alias table and also the members that an object literal inherits from
  \<^verbatim>\<open>Object.prototype\<close>, whose names are listed in \<open>inherited_members\<close>: \<open>Member n\<close> is
  the value \<^verbatim>\<open>Object.prototype[n]\<close>, a function, or the prototype object itself for
  \<^verbatim>\<open>__proto__\<close>. These twelve values are pairwise different objects, so \<^verbatim>\<open>===\<close> on
  them is equality of the names. \<open>PlainObject\<close> is the object \<^verbatim>\<open>{}\<close> that the store
  reads back where the prototype object had been written.
\<close>

datatype status_value = Text string | Member string | PlainObject

definition status_alias :: "string \<Rightarrow> string" where
  "status_alias v =
     (if v = ''running'' then ''in_progress''
      else if v = ''active'' then ''in_progress''
      else if v = ''done'' then ''verified''
      else if v = ''completed'' then ''verified''
      else if v = ''completed_pending_verification'' then ''awaiting_verification''
      else if v = ''awaiting_verification'' then ''awaiting_verification''
      else [])"

definition inherited_members :: "string list" where
  "inherited_members =
     [''constructor'', ''hasOwnProperty'', ''isPrototypeOf'', ''propertyIsEnumerable'',
      ''toLocaleString'', ''toString'', ''valueOf'', ''__proto__'', ''__defineGetter__'',
      ''__defineSetter__'', ''__lookupGetter__'', ''__lookupSetter__'']"

text \<open>\<^verbatim>\<open>String(v)\<close> of an inherited member, as Node prints it: the prototype object gives
  \<^verbatim>\<open>[object Object]\<close> and a native function gives its header with the body
  \<^verbatim>\<open>{ [native code] }\<close>; the function behind \<^verbatim>\<open>constructor\<close> is \<^verbatim>\<open>Object\<close>.\<close>

definition member_text :: "string \<Rightarrow> string" where
  "member_text n =
     (if n = ''__proto__'' then ''[object Object]''
      else ''function '' @ (if n = ''constructor'' then ''Object'' else n) @
           ''() { [native code] }'')"

text \<open>\<^verbatim>\<open>String(status || '')\<close>; every value but the empty string is truthy.\<close>

definition status_text :: "status_value \<Rightarrow> string" where
  "status_text v =
     (case v of Text s \<Rightarrow> s | Member n \<Rightarrow> member_text n | PlainObject \<Rightarrow> ''[object Object]'')"

text \<open>\<^verbatim>\<open>map[value] || value || 'in_progress'\<close>: an own property of the table first, then an
  inherited member (all of them are truthy), then the value itself.\<close>

definition normalizeTaskStatus :: "status_value \<Rightarrow> status_value" where
  "normalizeTaskStatus status =
     (let v = trim (status_text status)
      in if status_alias v \<noteq> [] then Text (status_alias v)
         else if v \<in> set inherited_members then Member v
         else Text (or_str v ''in_progress''))"

text \<open>What \<^verbatim>\<open>JSON.parse(JSON.stringify(x))\<close> makes of a status: a property whose value is a
  function is left out, and the prototype object is written as \<^verbatim>\<open>{}\<close>.\<close>

definition json_status :: "status_value \<Rightarrow> status_value" where
  "json_status v =
     (case v of
        Member n \<Rightarrow> (if n = ''__proto__'' then PlainObject else Text [])
      | _ \<Rightarrow> v)"

definition remove_separators :: "string \<Rightarrow> string" where
  "remove_separators s =
     filter (\<lambda>c. \<not> (js_whitespace c \<or> c = CHR ''_'' \<or> c = CHR ''-'')) s"

definition normalizeTaskSource :: "string \<Rightarrow> string" where
  "normalizeTaskSource v =
     (let raw = trim v
      in if raw = [] then []
         else (let compact = remove_separators (toLowerCase raw)
               in if compact = ''codex'' \<or> compact = ''codexadapter'' \<or> compact = ''codexlocal''
                  then ''Codex''
                  else if compact = ''claudecode'' \<or> compact = ''claude'' then ''Claude Code''
                  else if compact = ''opencode'' then ''OpenCode''
                  else raw))"

definition normalizeSourceToken :: "string \<Rightarrow> string" where
  "normalizeSourceToken v =
     (let source = normalizeTaskSource v
      in if source = [] then [] else strip_dashes (slugify source))"

definition composeMachineAgentName :: "string \<Rightarrow> string \<Rightarrow> string" where
  "composeMachineAgentName machineName source =
     (let base = normalizeAgentName machineName [];
          normalizedSource = normalizeTaskSource source
      in if normalizedSource = [] then base
         else if toLowerCase base = toLowerCase normalizedSource then base
         else base @ middle_dot @ normalizedSource)"

section \<open>Cards\<close>

text \<open>A machine record (a card) as the server stores it. \<open>m_name\<close> is the \<^verbatim>\<open>name\<close> field,
  \<open>m_aliases\<close> the \<^verbatim>\<open>aliases\<close> array (absent: empty), and so on.\<close>

record machine =
  m_id :: string
  m_name :: string
  m_last_seen :: stamp
  m_online_since :: stamp
  m_fingerprint :: string
  m_aliases :: "string list"
  m_display_name :: string

text \<open>A JavaScript \<^verbatim>\<open>Map\<close> keeps its keys in insertion order; \<^verbatim>\<open>set\<close> on a key that is
  present replaces the value in place.\<close>

fun map_set :: "'k \<Rightarrow> 'v \<Rightarrow> ('k \<times> 'v) list \<Rightarrow> ('k \<times> 'v) list" where
  "map_set k v [] = [(k, v)]"
| "map_set k v ((k', v') # kvs) =
     (if k' = k then (k, v) # kvs else (k', v') # map_set k v kvs)"

fun dedupeAliases_loop :: "string list \<Rightarrow> string list \<Rightarrow> string list" where
  "dedupeAliases_loop out [] = out"
| "dedupeAliases_loop out (alias # rest) =
     (let v = trim alias
      in if v = [] \<or> v \<in> set out then dedupeAliases_loop out rest
         else dedupeAliases_loop (out @ [v]) rest)"

definition dedupeAliases :: "string list \<Rightarrow> string list" where
  "dedupeAliases aliases = dedupeAliases_loop [] aliases"

text \<open>\<^verbatim>\<open>a > b\<close> on the results of \<^verbatim>\<open>Date.parse\<close>: false when either is \<open>NaN\<close>.\<close>

definition js_gt :: "int option \<Rightarrow> int option \<Rightarrow> bool" where
  "js_gt a b = (case (a, b) of (Some x, Some y) \<Rightarrow> x > y | _ \<Rightarrow> False)"

text \<open>One round of the loop of \<^verbatim>\<open>dedupeMachines\<close>; \<open>now\<close> is the clock reading behind
  \<^verbatim>\<open>new Date().toISOString()\<close>.\<close>

definition dedupeMachines_step ::
  "int \<Rightarrow> (string \<times> machine) list \<Rightarrow> machine \<Rightarrow> (string \<times> machine) list" where
  "dedupeMachines_step now keyed mc =
     (if m_id mc = [] then keyed
      else
        let fingerprint = normalizeMachineFingerprint (m_fingerprint mc) (m_id mc);
            agentName = normalizeAgentName (m_name mc) (m_id mc);
            key = machineIdentityKey fingerprint agentName
        in case map_of keyed key of
             None \<Rightarrow>
               map_set key
                 \<lparr>m_id = m_id mc, m_name = agentName,
                  m_last_seen = or_stamp (m_last_seen mc) (Stamp now),
                  m_online_since =
                    or_stamp (normalizeTimestamp (m_online_since mc))
                      (or_stamp (normalizeTimestamp (m_last_seen mc)) (Stamp now)),
                  m_fingerprint = fingerprint,
                  m_aliases = dedupeAliases (m_aliases mc @ [m_id mc]),
                  m_display_name = normalizeDisplayName (m_display_name mc)\<rparr>
                 keyed
           | Some existing \<Rightarrow>
               let aliases = dedupeAliases (m_aliases existing @ m_aliases mc @ [m_id mc]);
                   mergedDisplayName =
                     or_str (normalizeDisplayName (m_display_name existing))
                       (normalizeDisplayName (m_display_name mc));
                   mergedOnlineSince =
                     or_stamp (normalizeTimestamp (m_online_since existing))
                       (or_stamp (normalizeTimestamp (m_online_since mc))
                         (or_stamp (normalizeTimestamp (m_last_seen existing))
                           (or_stamp (normalizeTimestamp (m_last_seen mc)) (Stamp now))));
                   existingSeen = Date_parse (m_last_seen existing);
                   currentSeen = Date_parse (m_last_seen mc);
                   useCurrent = (existingSeen = None \<or> js_gt currentSeen existingSeen)
               in if useCurrent then
                    map_set key
                      \<lparr>m_id = m_id existing,
                       m_name = or_str agentName (or_str (m_name existing) (m_id mc)),
                       m_last_seen = or_stamp (m_last_seen mc) (m_last_seen existing),
                       m_online_since = mergedOnlineSince,
                       m_fingerprint = fingerprint,
                       m_aliases = aliases,
                       m_display_name = mergedDisplayName\<rparr>
                      keyed
                  else
                    map_set key
                      (existing\<lparr>m_aliases := aliases, m_display_name := mergedDisplayName,
                         m_online_since := mergedOnlineSince\<rparr>)
                      keyed)"

definition dedupeMachines :: "int \<Rightarrow> machine list \<Rightarrow> machine list" where
  "dedupeMachines now ms = map snd (foldl (dedupeMachines_step now) [] ms)"

section \<open>Presence\<close>

record presence =
  agent_status :: string
  status_since :: stamp
  online_since :: stamp
  offline_since :: stamp

definition isMachineOnline :: "config \<Rightarrow> machine \<Rightarrow> int \<Rightarrow> bool" where
  "isMachineOnline cfg mc nowMs =
     (case Date_parse (m_last_seen mc) of
        None \<Rightarrow> False
      | Some lastSeenMs \<Rightarrow> nowMs - lastSeenMs \<le> AGENT_OFFLINE_TIMEOUT_MS cfg)"

text \<open>\<open>nowMs\<close> is an integer, so \<^verbatim>\<open>Number.isFinite(nowMs)\<close> holds and \<^verbatim>\<open>fallbackNow\<close>
  is \<open>nowMs\<close>. A \<^verbatim>\<open>null\<close> in the result is \<open>NoStamp\<close>.\<close>

definition resolveMachinePresence :: "config \<Rightarrow> machine \<Rightarrow> int \<Rightarrow> presence" where
  "resolveMachinePresence cfg mc nowMs =
     (let fallbackNow = nowMs;
          lastSeenMs = Date_parse (m_last_seen mc);
          online = (case lastSeenMs of
                      None \<Rightarrow> False
                    | Some ls \<Rightarrow> fallbackNow - ls \<le> AGENT_OFFLINE_TIMEOUT_MS cfg);
          normalizedOnlineSince = or_stamp (normalizeTimestamp (m_online_since mc)) NoStamp
      in if online then
           (let onlineSinceMs = Date_parse normalizedOnlineSince;
                statusSinceMs =
                  (case onlineSinceMs of
                     None \<Rightarrow> (case lastSeenMs of None \<Rightarrow> fallbackNow | Some ls \<Rightarrow> ls)
                   | Some os \<Rightarrow> os)
            in \<lparr>agent_status = ''online'', status_since = Stamp statusSinceMs,
                online_since = Stamp statusSinceMs, offline_since = NoStamp\<rparr>)
         else
           (let rawOfflineSinceMs =
                  (case lastSeenMs of
                     None \<Rightarrow> fallbackNow
                   | Some ls \<Rightarrow> ls + AGENT_OFFLINE_TIMEOUT_MS cfg);
                offlineSinceMs = min (max rawOfflineSinceMs 0) fallbackNow
            in \<lparr>agent_status = ''offline'', status_since = Stamp offlineSinceMs,
                online_since = or_stamp normalizedOnlineSince NoStamp,
                offline_since = Stamp offlineSinceMs\<rparr>))"

section \<open>Tasks, history and the stored state\<close>

text \<open>A stored task, an inbound task of a report (\<open>rt_metadata_source\<close> and
  \<open>rt_metadata_preview_images\<close> are \<^verbatim>\<open>task.metadata.source\<close> and
  \<^verbatim>\<open>task.metadata.preview_images\<close>; a preview list that is not an array is \<open>None\<close>),
  a history event and the whole state \<^verbatim>\<open>{machines, tasks, history}\<close>.\<close>

record task =
  t_id :: string
  t_machine_id :: string
  t_title :: string
  t_status :: status_value
  t_created_at :: stamp
  t_updated_at :: stamp
  t_source :: string
  t_preview_images :: "string list"

record report_task =
  rt_id :: string
  rt_title :: string
  rt_status :: string
  rt_source :: string
  rt_metadata_source :: string
  rt_created_at :: stamp
  rt_updated_at :: stamp
  rt_preview_images :: "string list option"
  rt_metadata_preview_images :: "string list option"

record history_event =
  h_id :: string
  h_event :: string
  h_machine_id :: string
  h_task_id :: string
  h_title :: string
  h_from_status :: "status_value option"
  h_to_status :: status_value
  h_changed_at :: stamp

record db =
  machines :: "machine list"
  tasks :: "task list"
  history :: "history_event list"

definition empty_db :: db where
  "empty_db = \<lparr>machines = [], tasks = [], history = []\<rparr>"

subsection \<open>Preview images\<close>

definition image_type_char :: "char \<Rightarrow> bool" where
  "image_type_char c = (c \<in> set ''abcdefghijklmnopqrstuvwxyz0123456789.+-'')"

text \<open>Both patterns carry the flag \<^verbatim>\<open>i\<close>, so they are matched against the lower-cased
  value.\<close>

definition isSupportedImageUrl :: "string \<Rightarrow> bool" where
  "isSupportedImageUrl v =
     (if v = [] then False
      else
        let l = toLowerCase v;
            rest = drop (length ''data:image/'') l
        in if startsWith l ''data:image/'' \<and> takeWhile image_type_char rest \<noteq> [] \<and>
              startsWith (dropWhile image_type_char rest) '';base64,'' then True
           else if startsWith l ''http://'' \<or> startsWith l ''https://'' then True
           else False)"

fun normalizePreviewImages_loop :: "config \<Rightarrow> string list \<Rightarrow> string list \<Rightarrow> string list" where
  "normalizePreviewImages_loop cfg out [] = out"
| "normalizePreviewImages_loop cfg out (item # rest) =
     (let v = trim item
      in if v = [] then normalizePreviewImages_loop cfg out rest
         else if \<not> isSupportedImageUrl v then normalizePreviewImages_loop cfg out rest
         else if int (length v) > PREVIEW_IMAGE_MAX_LENGTH cfg
           then normalizePreviewImages_loop cfg out rest
         else if v \<in> set out then normalizePreviewImages_loop cfg out rest
         else if int (length (out @ [v])) \<ge> PREVIEW_IMAGE_LIMIT cfg then out @ [v]
         else normalizePreviewImages_loop cfg (out @ [v]) rest)"

definition normalizePreviewImages :: "config \<Rightarrow> string list option \<Rightarrow> string list" where
  "normalizePreviewImages cfg input =
     (case input of None \<Rightarrow> [] | Some xs \<Rightarrow> normalizePreviewImages_loop cfg [] xs)"

subsection \<open>Timestamps of a task\<close>

definition resolveCreatedAt :: "task option \<Rightarrow> stamp \<Rightarrow> stamp \<Rightarrow> stamp \<Rightarrow> stamp" where
  "resolveCreatedAt existing incomingCreatedAt incomingUpdatedAt now =
     (let existingCreated =
            normalizeTimestamp (case existing of None \<Rightarrow> NoStamp | Some e \<Rightarrow> t_created_at e);
          existingUpdated =
            normalizeTimestamp (case existing of None \<Rightarrow> NoStamp | Some e \<Rightarrow> t_updated_at e)
      in if existingCreated \<noteq> NoStamp then
           (if incomingCreatedAt \<noteq> NoStamp \<and> existingUpdated \<noteq> NoStamp \<and>
               existingCreated = existingUpdated \<and> incomingCreatedAt \<noteq> existingCreated
            then incomingCreatedAt
            else existingCreated)
         else or_stamp incomingCreatedAt (or_stamp incomingUpdatedAt now))"

definition resolveUpdatedAt :: "task option \<Rightarrow> stamp \<Rightarrow> stamp \<Rightarrow> stamp \<Rightarrow> stamp" where
  "resolveUpdatedAt existing incomingUpdatedAt createdAt now =
     (let existingUpdated =
            normalizeTimestamp (case existing of None \<Rightarrow> NoStamp | Some e \<Rightarrow> t_updated_at e)
      in or_stamp incomingUpdatedAt (or_stamp existingUpdated (or_stamp createdAt now)))"

subsection \<open>Deduplication of tasks\<close>

text \<open>Stored tasks written by this server carry no \<^verbatim>\<open>metadata\<close>, so
  \<^verbatim>\<open>task.source || task?.metadata?.source\<close> is \<open>t_source\<close> for them.\<close>

definition dedupeStoredTasks_step ::
  "config \<Rightarrow> (string \<times> task) list \<Rightarrow> task \<Rightarrow> (string \<times> task) list" where
  "dedupeStoredTasks_step cfg keyed t =
     (if t_id t = [] \<or> t_machine_id t = [] then keyed
      else
        let source = normalizeTaskSource (t_source t);
            previewImages = normalizePreviewImages cfg (Some (t_preview_images t));
            normalized = t\<lparr>t_source := source, t_preview_images := previewImages\<rparr>
        in map_set (taskKey (t_machine_id t) (t_id t)) normalized keyed)"

definition dedupeStoredTasks :: "config \<Rightarrow> task list \<Rightarrow> task list" where
  "dedupeStoredTasks cfg ts = map snd (foldl (dedupeStoredTasks_step cfg) [] ts)"

definition dedupeIncomingTasks_step ::
  "(string \<times> report_task) list \<Rightarrow> report_task \<Rightarrow> (string \<times> report_task) list" where
  "dedupeIncomingTasks_step keyed t =
     (if rt_id t = [] then keyed
      else
        let source = normalizeTaskSource (or_str (rt_source t) (rt_metadata_source t));
            key = (if source \<noteq> [] then rt_id t @ ''::'' @ toLowerCase source else rt_id t);
            normalizedTask = t\<lparr>rt_source := source\<rparr>
        in map_set key normalizedTask keyed)"

definition dedupeIncomingTasks :: "report_task list \<Rightarrow> report_task list" where
  "dedupeIncomingTasks ts = map snd (foldl dedupeIncomingTasks_step [] ts)"

definition ensureDBShape :: "config \<Rightarrow> int \<Rightarrow> db \<Rightarrow> db" where
  "ensureDBShape cfg now d =
     \<lparr>machines = dedupeMachines now (machines d),
      tasks = dedupeStoredTasks cfg (tasks d),
      history = history d\<rparr>"

text \<open>The store is the file backend, and the stored state is the content of its file:
  \<^verbatim>\<open>saveDB\<close> passes the state through \<^verbatim>\<open>ensureDBShape\<close> and writes it with
  \<^verbatim>\<open>JSON.stringify\<close>, \<^verbatim>\<open>loadDB\<close> parses the file and passes the result through
  \<^verbatim>\<open>ensureDBShape\<close>. The strings, timestamps and arrays of a state are written and read
  back as they are; a status is read back as \<open>json_status\<close> says. The clock is read once
  for a request.\<close>

definition json_task :: "task \<Rightarrow> task" where
  "json_task t = t\<lparr>t_status := json_status (t_status t)\<rparr>"

definition json_event :: "history_event \<Rightarrow> history_event" where
  "json_event e =
     e\<lparr>h_from_status := map_option json_status (h_from_status e),
       h_to_status := json_status (h_to_status e)\<rparr>"

definition json_roundtrip :: "db \<Rightarrow> db" where
  "json_roundtrip d =
     \<lparr>machines = machines d, tasks = map json_task (tasks d),
      history = map json_event (history d)\<rparr>"

definition loadDB :: "config \<Rightarrow> int \<Rightarrow> db \<Rightarrow> db" where
  "loadDB cfg now store = ensureDBShape cfg now store"

definition saveDB :: "config \<Rightarrow> int \<Rightarrow> db \<Rightarrow> db" where
  "saveDB cfg now d = json_roundtrip (ensureDBShape cfg now d)"

subsection \<open>Source groups of a report\<close>

record task_group =
  g_source :: string
  g_tasks :: "report_task list"

fun map_entry_upd :: "'k \<Rightarrow> ('v \<Rightarrow> 'v) \<Rightarrow> ('k \<times> 'v) list \<Rightarrow> ('k \<times> 'v) list" where
  "map_entry_upd k f [] = []"
| "map_entry_upd k f ((k', v) # kvs) =
     (if k' = k then (k', f v) # kvs else (k', v) # map_entry_upd k f kvs)"

definition splitTasksBySource_step ::
  "(string \<times> task_group) list \<Rightarrow> report_task \<Rightarrow> (string \<times> task_group) list" where
  "splitTasksBySource_step groups t =
     (if rt_id t = [] then groups
      else
        let source = normalizeTaskSource (or_str (rt_source t) (rt_metadata_source t));
            key = (if source \<noteq> [] then toLowerCase source else ''__default__'');
            groups1 = (if map_of groups key = None
                       then groups @ [(key, \<lparr>g_source = source, g_tasks = []\<rparr>)] else groups);
            normalizedTask = t\<lparr>rt_source := source\<rparr>
        in map_entry_upd key (\<lambda>g. g\<lparr>g_tasks := g_tasks g @ [normalizedTask]\<rparr>) groups1)"

definition splitTasksBySource :: "report_task list \<Rightarrow> task_group list" where
  "splitTasksBySource ts = map snd (foldl splitTasksBySource_step [] ts)"

subsection \<open>The history ledger\<close>

text \<open>\<^verbatim>\<open>splice(0, n)\<close> removes the first \<open>n\<close> elements (all of them when \<open>n\<close> exceeds the
  length).\<close>

definition appendHistory :: "config \<Rightarrow> db \<Rightarrow> history_event \<Rightarrow> db" where
  "appendHistory cfg d ev =
     (let h = history d @ [ev]
      in if int (length h) > HISTORY_LIMIT cfg
         then d\<lparr>history := drop (nat (int (length h) - HISTORY_LIMIT cfg)) h\<rparr>
         else d\<lparr>history := h\<rparr>)"

section \<open>Identity resolution\<close>

text \<open>\<^verbatim>\<open>Array.prototype.find\<close> returns a reference to the first matching element; the
  model returns its index, so that the later assignments to the object are updates at
  that index.\<close>

fun findIndex :: "('a \<Rightarrow> bool) \<Rightarrow> 'a list \<Rightarrow> nat option" where
  "findIndex P [] = None"
| "findIndex P (x # xs) = (if P x then Some 0 else map_option Suc (findIndex P xs))"

definition findMachine :: "db \<Rightarrow> string \<Rightarrow> string \<Rightarrow> string \<Rightarrow> nat option" where
  "findMachine d machineId machineFingerprint machineName =
     (let fingerprint = normalizeMachineFingerprint machineFingerprint machineId;
          agentName = normalizeAgentName machineName machineId
      in findIndex
           (\<lambda>m. if m_id m = [] then False
                else
                  let fp = normalizeMachineFingerprint (m_fingerprint m) (m_id m);
                      existingAgentName = normalizeAgentName (m_name m) (m_id m);
                      sameIdentity = (fp = fingerprint \<and> existingAgentName = agentName)
                  in if sameIdentity then True
                     else
                       let sameAlias = (m_id m = machineId \<or> machineId \<in> set (m_aliases m))
                       in if sameAlias \<and> existingAgentName = agentName then True else False)
           (machines d))"

function pickMachineRecordId_loop ::
  "machine list \<Rightarrow> string \<Rightarrow> string \<Rightarrow> int \<Rightarrow> int \<Rightarrow> string" where
  "pickMachineRecordId_loop ms baseId agentToken now counter =
     (if counter < 1000 then
        (let candidate = baseId @ ''::'' @ agentToken @ ''-'' @ decimal counter;
             exists = list_ex (\<lambda>item. m_id item = candidate) ms
         in if \<not> exists then candidate
            else pickMachineRecordId_loop ms baseId agentToken now (counter + 1))
      else baseId @ ''::'' @ decimal_int now)"
  by pat_completeness auto
termination
  by (relation "measure (\<lambda>(ms, baseId, agentToken, now, counter). nat (1000 - counter))") auto

definition pickMachineRecordId :: "db \<Rightarrow> string \<Rightarrow> string \<Rightarrow> string \<Rightarrow> int \<Rightarrow> string" where
  "pickMachineRecordId d machineId machineFingerprint machineName now =
     (let baseId = trim machineId
      in if baseId = [] then []
         else case List.find (\<lambda>item. m_id item = baseId) (machines d) of
                None \<Rightarrow> baseId
              | Some conflict \<Rightarrow>
                  let conflictFingerprint =
                        normalizeMachineFingerprint (m_fingerprint conflict) (m_id conflict);
                      conflictAgentName = normalizeAgentName (m_name conflict) (m_id conflict);
                      sameIdentity =
                        (conflictFingerprint =
                           normalizeMachineFingerprint machineFingerprint machineId \<and>
                         conflictAgentName = normalizeAgentName machineName machineId)
                  in if sameIdentity then baseId
                     else
                       let agentToken =
                             or_str (take 32 (slugify (normalizeAgentName machineName machineId)))
                               ''agent''
                       in pickMachineRecordId_loop (machines d) baseId agentToken now 1)"

text \<open>A JavaScript \<^verbatim>\<open>Set\<close> of strings, in insertion order.\<close>

definition set_add :: "string list \<Rightarrow> string \<Rightarrow> string list" where
  "set_add xs x = (if x \<in> set xs then xs else xs @ [x])"

text \<open>The body of the loop over the duplicates in \<^verbatim>\<open>mergeMachineRecords\<close>. The state is
  the canonical card, the alias set, the tasks and the history.\<close>

definition mergeDuplicate ::
  "machine \<times> string list \<times> task list \<times> history_event list \<Rightarrow> machine \<Rightarrow>
   machine \<times> string list \<times> task list \<times> history_event list" where
  "mergeDuplicate st duplicate =
     (case st of (cm, aliasSet, ts, hs) \<Rightarrow>
        let aliasSet1 = foldl set_add (set_add aliasSet (m_id duplicate)) (m_aliases duplicate);
            cm1 = (if normalizeDisplayName (m_display_name cm) = [] \<and>
                      normalizeDisplayName (m_display_name duplicate) \<noteq> []
                   then cm\<lparr>m_display_name := normalizeDisplayName (m_display_name duplicate)\<rparr>
                   else cm);
            cm2 = (if normalizeTimestamp (m_online_since cm1) = NoStamp \<and>
                      normalizeTimestamp (m_online_since duplicate) \<noteq> NoStamp
                   then cm1\<lparr>m_online_since := normalizeTimestamp (m_online_since duplicate)\<rparr>
                   else cm1);
            duplicateSeen = Date_parse (m_last_seen duplicate);
            canonicalSeen = Date_parse (m_last_seen cm2);
            cm3 = (if duplicateSeen \<noteq> None \<and>
                      (canonicalSeen = None \<or> js_gt duplicateSeen canonicalSeen)
                   then
                     (let c = cm2\<lparr>m_last_seen := m_last_seen duplicate,
                                  m_name := or_str (m_name duplicate) (m_name cm2)\<rparr>
                      in if normalizeTimestamp (m_online_since duplicate) \<noteq> NoStamp
                         then c\<lparr>m_online_since := normalizeTimestamp (m_online_since duplicate)\<rparr>
                         else c)
                   else cm2);
            ts1 = map (\<lambda>t. if t_machine_id t = m_id duplicate
                            then t\<lparr>t_machine_id := m_id cm3\<rparr> else t) ts;
            hs1 = map (\<lambda>e. if h_machine_id e = m_id duplicate
                            then e\<lparr>h_machine_id := m_id cm3\<rparr> else e) hs
        in (cm3, aliasSet1, ts1, hs1))"

text \<open>\<open>ci\<close> is the position of the canonical card in \<open>machines d\<close>; the callers pass a valid
  position.\<close>

definition mergeMachineRecords :: "config \<Rightarrow> db \<Rightarrow> nat \<Rightarrow> db" where
  "mergeMachineRecords cfg d ci =
     (if \<not> ci < length (machines d) then d
      else
        let canonicalMachine = machines d ! ci;
            canonicalFingerprint =
              normalizeMachineFingerprint (m_fingerprint canonicalMachine) (m_id canonicalMachine);
            canonicalAgentName =
              normalizeAgentName (m_name canonicalMachine) (m_id canonicalMachine);
            duplicates =
              filter
                (\<lambda>m. if m_id m = [] then False
                     else if m_id m = m_id canonicalMachine then False
                     else normalizeMachineFingerprint (m_fingerprint m) (m_id m) =
                            canonicalFingerprint \<and>
                          normalizeAgentName (m_name m) (m_id m) = canonicalAgentName)
                (machines d)
        in if duplicates = [] then d
           else
             case foldl mergeDuplicate
                    (canonicalMachine,
                     set_add (foldl set_add [] (m_aliases canonicalMachine))
                       (m_id canonicalMachine),
                     tasks d, history d)
                    duplicates of
               (cm, aliasSet, ts, hs) \<Rightarrow>
                 \<lparr>machines =
                    filter (\<lambda>m. \<not> list_ex (\<lambda>dup. m_id dup = m_id m) duplicates)
                      ((machines d)[ci := cm\<lparr>m_aliases := dedupeAliases aliasSet\<rparr>]),
                  tasks = dedupeStoredTasks cfg ts,
                  history = hs\<rparr>)"

section \<open>The report handler\<close>

text \<open>The body of \<^verbatim>\<open>group.tasks.forEach\<close>: one inbound task against the card
  \<open>canonicalMachineId\<close>. \<^verbatim>\<open>Date.now()\<close> in the event id is the clock reading of the
  request.\<close>

definition upsertTask :: "config \<Rightarrow> int \<Rightarrow> string \<Rightarrow> string \<Rightarrow> db \<Rightarrow> report_task \<Rightarrow> db" where
  "upsertTask cfg now canonicalMachineId groupSource d t =
     (if rt_id t = [] then d
      else
        let existingIndex =
              findIndex (\<lambda>tt. t_id tt = rt_id t \<and> t_machine_id tt = canonicalMachineId) (tasks d);
            existing = map_option (\<lambda>i. tasks d ! i) existingIndex;
            nextStatus = normalizeTaskStatus (Text (rt_status t));
            nextSource =
              normalizeTaskSource
                (or_str (rt_source t)
                  (or_str (rt_metadata_source t)
                    (or_str groupSource (case existing of None \<Rightarrow> [] | Some e \<Rightarrow> t_source e))));
            previousStatus = map_option (\<lambda>e. normalizeTaskStatus (t_status e)) existing;
            incomingCreatedAt = normalizeTimestamp (rt_created_at t);
            incomingUpdatedAt = normalizeTimestamp (rt_updated_at t);
            createdAt = resolveCreatedAt existing incomingCreatedAt incomingUpdatedAt (Stamp now);
            updatedAt = resolveUpdatedAt existing incomingUpdatedAt createdAt (Stamp now);
            incomingPreviewImages =
              normalizePreviewImages cfg
                (case rt_preview_images t of
                   Some xs \<Rightarrow> Some xs
                 | None \<Rightarrow> rt_metadata_preview_images t);
            storedPreviewImages =
              normalizePreviewImages cfg (map_option t_preview_images existing);
            previewImages =
              (if incomingPreviewImages \<noteq> [] then incomingPreviewImages else storedPreviewImages);
            title = or_str (rt_title t) ''Untitled Task''
        in case existingIndex of
             Some i \<Rightarrow>
               let d1 = (if previousStatus \<noteq> Some nextStatus then
                           appendHistory cfg d
                             \<lparr>h_id = canonicalMachineId @ '':'' @ rt_id t @ '':'' @ decimal_int now,
                              h_event = ''status_changed'',
                              h_machine_id = canonicalMachineId,
                              h_task_id = rt_id t,
                              h_title = title,
                              h_from_status = previousStatus,
                              h_to_status = nextStatus,
                              h_changed_at = Stamp now\<rparr>
                         else d);
                   e = tasks d ! i
               in d1\<lparr>tasks := (tasks d1)
                      [i := e\<lparr>t_id := rt_id t, t_machine_id := canonicalMachineId,
                              t_title := title, t_status := nextStatus,
                              t_created_at := createdAt, t_updated_at := updatedAt,
                              t_source := (if nextSource \<noteq> [] then nextSource else t_source e),
                              t_preview_images :=
                                (if previewImages \<noteq> [] then previewImages
                                 else t_preview_images e)\<rparr>]\<rparr>
           | None \<Rightarrow>
               appendHistory cfg
                 (d\<lparr>tasks := tasks d @
                      [\<lparr>t_id = rt_id t, t_machine_id = canonicalMachineId, t_title = title,
                        t_status = nextStatus,
                        t_created_at = or_stamp createdAt (Stamp now),
                        t_updated_at = updatedAt,
                        t_source = nextSource,
                        t_preview_images = previewImages\<rparr>]\<rparr>)
                 \<lparr>h_id = canonicalMachineId @ '':'' @ rt_id t @ '':'' @ decimal_int now,
                  h_event = ''created'',
                  h_machine_id = canonicalMachineId,
                  h_task_id = rt_id t,
                  h_title = title,
                  h_from_status = None,
                  h_to_status = nextStatus,
                  h_changed_at = Stamp now\<rparr>)"

text \<open>The upsert of the card of one source group: the state after it and the position of
  the card.\<close>

definition upsertMachine ::
  "config \<Rightarrow> int \<Rightarrow> string \<Rightarrow> string \<Rightarrow> string \<Rightarrow> string \<Rightarrow> db \<Rightarrow> db \<times> nat" where
  "upsertMachine cfg now machineId machineFingerprint sourceMachineId sourceMachineName d =
     (case findMachine d sourceMachineId machineFingerprint sourceMachineName of
        None \<Rightarrow>
          let recordId =
                pickMachineRecordId d sourceMachineId machineFingerprint sourceMachineName now
          in (d\<lparr>machines := machines d @
                 [\<lparr>m_id = or_str recordId sourceMachineId,
                   m_name = sourceMachineName,
                   m_last_seen = Stamp now,
                   m_online_since = Stamp now,
                   m_fingerprint = machineFingerprint,
                   m_aliases = dedupeAliases [sourceMachineId, machineId, recordId],
                   m_display_name = []\<rparr>]\<rparr>,
              length (machines d))
      | Some i \<Rightarrow>
          let mc = machines d ! i;
              wasOnline = isMachineOnline cfg mc now
          in (d\<lparr>machines := (machines d)
                 [i := mc\<lparr>m_name := sourceMachineName,
                          m_last_seen := Stamp now,
                          m_online_since :=
                            (if \<not> wasOnline \<or> normalizeTimestamp (m_online_since mc) = NoStamp
                             then Stamp now else m_online_since mc),
                          m_fingerprint := machineFingerprint,
                          m_aliases :=
                            dedupeAliases
                              (m_aliases mc @ [m_id mc, sourceMachineId, machineId])\<rparr>]\<rparr>,
              i))"

text \<open>One round of the loop over the source groups; the state carries
  \<^verbatim>\<open>lastCanonicalMachineId\<close>.\<close>

definition reportGroup ::
  "config \<Rightarrow> int \<Rightarrow> string \<Rightarrow> string \<Rightarrow> string \<Rightarrow> db \<times> string \<Rightarrow> task_group \<Rightarrow> db \<times> string" where
  "reportGroup cfg now machineId machineName machineFingerprint st grp =
     (let d = fst st;
          groupSource = normalizeTaskSource (g_source grp);
          sourceToken = normalizeSourceToken groupSource;
          sourceMachineId =
            (if sourceToken \<noteq> [] then machineId @ ''::'' @ sourceToken else machineId);
          sourceMachineName = composeMachineAgentName machineName groupSource;
          up = upsertMachine cfg now machineId machineFingerprint sourceMachineId
                 sourceMachineName d;
          canonicalMachineId = m_id (machines (fst up) ! snd up);
          d2 = mergeMachineRecords cfg (fst up) (snd up)
      in (foldl (upsertTask cfg now canonicalMachineId groupSource) d2 (g_tasks grp),
          canonicalMachineId))"

text \<open>
  The body of a report. The handler reads \<^verbatim>\<open>machine_name\<close> and
  \<^verbatim>\<open>machine_fingerprint\<close> only through \<^verbatim>\<open>String(value || '')\<close>, and it does so before it
  looks at \<^verbatim>\<open>machine_id\<close>. Such a field is represented by the outcome of that
  conversion: \<open>Str s\<close> when it gives the string \<open>s\<close> (the empty string for an absent
  field), \<open>Unconvertible\<close> when it throws, as it does for a JSON object like
  \<^verbatim>\<open>{"toString": 1}\<close>, which has no callable \<^verbatim>\<open>toString\<close> and whose \<^verbatim>\<open>valueOf\<close>
  returns the object. \<^verbatim>\<open>machine_id\<close> and the fields of the task entries are strings.
\<close>

datatype payload_field = Str string | Unconvertible

record report =
  machine_id :: string
  machine_name :: payload_field
  machine_fingerprint :: payload_field
  report_tasks :: "report_task list"

text \<open>The answers: 400 with its message, 200 with \<^verbatim>\<open>machine\<close>, \<^verbatim>\<open>machine_fingerprint\<close> and
  \<^verbatim>\<open>tasks_updated\<close>, and the 500 with which the error middleware answers an exception
  of the handler.\<close>

datatype report_response =
    BadRequest string
  | ReportOk (ok_machine: string) (ok_machine_fingerprint: string) (ok_tasks_updated: nat)
  | ServerError string

text \<open>\<^verbatim>\<open>POST /api/report\<close>: the response and the state of the store afterwards.\<close>

definition postReport :: "config \<Rightarrow> int \<Rightarrow> db \<Rightarrow> report \<Rightarrow> report_response \<times> db" where
  "postReport cfg now store payload =
     (let machineId = machine_id payload
      in case machine_name payload of
           Unconvertible \<Rightarrow> (ServerError ''internal server error'', store)
         | Str name \<Rightarrow>
             let machineName = normalizeAgentName name machineId
             in case machine_fingerprint payload of
                  Unconvertible \<Rightarrow> (ServerError ''internal server error'', store)
                | Str fingerprint \<Rightarrow>
                    let machineFingerprint = normalizeMachineFingerprint fingerprint machineId;
                        ts = dedupeIncomingTasks (report_tasks payload)
                    in if machineId = [] then (BadRequest ''machine_id required'', store)
                       else
                         let taskGroups0 = splitTasksBySource ts;
                             taskGroups =
                               (if taskGroups0 = [] then [\<lparr>g_source = [], g_tasks = []\<rparr>]
                                else taskGroups0);
                             d = loadDB cfg now store;
                             res = foldl
                                     (reportGroup cfg now machineId machineName machineFingerprint)
                                     (d, machineId) taskGroups
                         in (ReportOk (snd res) machineFingerprint (length ts),
                             saveDB cfg now (fst res)))"

text \<open>A sequence of reports, each with the clock reading at its arrival.\<close>

definition postReports :: "config \<Rightarrow> db \<Rightarrow> (int \<times> report) list \<Rightarrow> db" where
  "postReports cfg store reqs =
     foldl (\<lambda>s req. snd (postReport cfg (fst req) s (snd req))) store reqs"

section \<open>Dashboard queries\<close>

record counts =
  in_progress :: nat
  awaiting_verification :: nat
  verified :: nat

definition buildCounts :: "task list \<Rightarrow> counts" where
  "buildCounts ts =
     foldl
       (\<lambda>acc t.
          let status = normalizeTaskStatus (t_status t);
              acc1 = (if status = Text ''in_progress''
                      then acc\<lparr>in_progress := in_progress acc + 1\<rparr> else acc);
              acc2 = (if status = Text ''awaiting_verification''
                      then acc1\<lparr>awaiting_verification := awaiting_verification acc1 + 1\<rparr>
                      else acc1)
          in if status = Text ''verified'' then acc2\<lparr>verified := verified acc2 + 1\<rparr> else acc2)
       \<lparr>in_progress = 0, awaiting_verification = 0, verified = 0\<rparr> ts"

text \<open>A row of the summary. The fields of \<^verbatim>\<open>...presence\<close> are kept together in
  \<open>row_presence\<close>; \<^verbatim>\<open>name\<close> and \<^verbatim>\<open>agent_name\<close> hold the same value.\<close>

record dashboard_row =
  row_id :: string
  row_agent_name :: string
  row_display_name :: string
  row_display_title :: string
  row_last_seen :: stamp
  row_presence :: presence
  row_counts :: counts
  row_total_tasks :: nat

text \<open>A pair of \<^verbatim>\<open>Date.parse\<close> results decides the order when both are numbers and they
  differ; the value is then \<^verbatim>\<open>b - a\<close>.\<close>

definition compareMs :: "int option \<Rightarrow> int option \<Rightarrow> int option" where
  "compareMs a b =
     (case (a, b) of (Some x, Some y) \<Rightarrow> (if x \<noteq> y then Some (y - x) else None) | _ \<Rightarrow> None)"

text \<open>\<open>localeCompare\<close> stands for \<^verbatim>\<open>String.prototype.localeCompare(_, 'zh-CN')\<close>, which
  belongs to the platform.\<close>

definition compareDashboardMachines ::
  "(string \<Rightarrow> string \<Rightarrow> int) \<Rightarrow> dashboard_row \<Rightarrow> dashboard_row \<Rightarrow> int" where
  "compareDashboardMachines localeCompare a b =
     (let statusRank = (\<lambda>item. if agent_status (row_presence item) = ''online''
                               then (0::int) else 1);
          aRank = statusRank a;
          bRank = statusRank b
      in if aRank \<noteq> bRank then aRank - bRank
         else
           case compareMs (Date_parse (status_since (row_presence a)))
                  (Date_parse (status_since (row_presence b))) of
             Some r \<Rightarrow> r
           | None \<Rightarrow>
               (case compareMs (Date_parse (row_last_seen a)) (Date_parse (row_last_seen b)) of
                  Some r \<Rightarrow> r
                | None \<Rightarrow> localeCompare (row_display_title a) (row_display_title b)))"

text \<open>\<^verbatim>\<open>Array.prototype.sort\<close> is stable; with a consistent comparator its result is the
  one of a stable insertion sort, in which an element stays ahead of the later elements
  that compare equal to it.\<close>

fun sort_insert :: "('a \<Rightarrow> 'a \<Rightarrow> int) \<Rightarrow> 'a \<Rightarrow> 'a list \<Rightarrow> 'a list" where
  "sort_insert cmp x [] = [x]"
| "sort_insert cmp x (y # ys) =
     (if cmp x y \<le> 0 then x # y # ys else y # sort_insert cmp x ys)"

definition js_sort :: "('a \<Rightarrow> 'a \<Rightarrow> int) \<Rightarrow> 'a list \<Rightarrow> 'a list" where
  "js_sort cmp xs = foldr (sort_insert cmp) xs []"

definition dashboardRow :: "config \<Rightarrow> int \<Rightarrow> task list \<Rightarrow> machine \<Rightarrow> dashboard_row" where
  "dashboardRow cfg nowMs ts m =
     (let mTasks = filter (\<lambda>t. t_machine_id t = m_id m) ts
      in \<lparr>row_id = m_id m,
          row_agent_name = m_name m,
          row_display_name = normalizeDisplayName (m_display_name m),
          row_display_title = composeMachineTitle (m_display_name m) (m_name m),
          row_last_seen = m_last_seen m,
          row_presence = resolveMachinePresence cfg m nowMs,
          row_counts = buildCounts mTasks,
          row_total_tasks = length mTasks\<rparr>)"

text \<open>\<^verbatim>\<open>GET /api/dashboard\<close>: the list \<^verbatim>\<open>machines\<close> of the response.\<close>

definition getDashboard ::
  "config \<Rightarrow> (string \<Rightarrow> string \<Rightarrow> int) \<Rightarrow> int \<Rightarrow> db \<Rightarrow> dashboard_row list" where
  "getDashboard cfg localeCompare nowMs store =
     (let d = loadDB cfg nowMs store
      in js_sort (compareDashboardMachines localeCompare)
           (map (dashboardRow cfg nowMs (tasks d)) (machines d)))"

text \<open>\<^verbatim>\<open>xs.slice(-n)\<close> for a positive integer \<open>n\<close>: the last \<open>n\<close> elements.\<close>

definition slice_last :: "nat \<Rightarrow> 'a list \<Rightarrow> 'a list" where
  "slice_last n xs = drop (length xs - n) xs"

record machine_detail =
  detail_row :: dashboard_row
  detail_tasks :: "task list"
  detail_recent_history :: "history_event list"

datatype 'a http_response = NotFound string | Ok200 'a

text \<open>\<^verbatim>\<open>GET /api/dashboard/machine/:id\<close>.\<close>

definition getMachineDetail :: "config \<Rightarrow> int \<Rightarrow> db \<Rightarrow> string \<Rightarrow> machine_detail http_response" where
  "getMachineDetail cfg nowMs store machineId =
     (let d = loadDB cfg nowMs store
      in case List.find (\<lambda>m. m_id m = machineId) (machines d) of
           None \<Rightarrow> NotFound ''machine not found''
         | Some m \<Rightarrow>
             Ok200
               \<lparr>detail_row = dashboardRow cfg nowMs (tasks d) m,
                detail_tasks = filter (\<lambda>t. t_machine_id t = machineId) (tasks d),
                detail_recent_history =
                  rev (slice_last 20 (filter (\<lambda>h. h_machine_id h = machineId) (history d)))\<rparr>)"

text \<open>The value of \<^verbatim>\<open>Number(req.query.limit)\<close>: \<open>NaN\<close> (also for a missing parameter),
  an infinity, or a finite number.\<close>

datatype js_number = NaN | PosInfinity | NegInfinity | Finite rat

record history_page =
  total :: nat
  items :: "history_event list"

text \<open>\<^verbatim>\<open>GET /api/dashboard/history\<close>. The query strings \<open>machineId\<close> and \<open>taskId\<close> are empty
  when the parameter is missing. \<^verbatim>\<open>items.slice(-limit)\<close> starts at the index
  \<open>max (length + trunc (- limit)) 0\<close>.\<close>

definition historyLimit :: "js_number \<Rightarrow> rat" where
  "historyLimit rawLimit =
     (case rawLimit of Finite r \<Rightarrow> min (max r 1) 500 | _ \<Rightarrow> 50)"

definition getHistory :: "config \<Rightarrow> int \<Rightarrow> db \<Rightarrow> string \<Rightarrow> string \<Rightarrow> js_number \<Rightarrow> history_page" where
  "getHistory cfg nowMs store machineId taskId rawLimit =
     (let d = loadDB cfg nowMs store;
          limit = historyLimit rawLimit;
          items0 = history d;
          items1 = (if machineId \<noteq> [] then filter (\<lambda>item. h_machine_id item = machineId) items0
                    else items0);
          items2 = (if taskId \<noteq> [] then filter (\<lambda>item. h_task_id item = taskId) items1
                    else items1);
          start = max (int (length items2) + \<lceil>- limit\<rceil>) 0
      in \<lparr>total = length items2, items = rev (drop (nat start) items2)\<rparr>)"

section \<open>Concrete inputs\<close>

text \<open>The states and requests at which the theorems below are instantiated.\<close>

definition old_card :: machine where
  "old_card =
     \<lparr>m_id = ''m1'', m_name = ''Agent'', m_last_seen = Stamp (- 100000),
      m_online_since = Stamp (- 200000), m_fingerprint = ''fp'', m_aliases = [''m1''],
      m_display_name = []\<rparr>"

definition stale_card :: machine where
  "stale_card =
     \<lparr>m_id = ''m2'', m_name = ''Agent'', m_last_seen = Stamp 1000,
      m_online_since = BadStamp, m_fingerprint = ''fp2'', m_aliases = [''m2''],
      m_display_name = []\<rparr>"

definition plain_task :: "string \<Rightarrow> string \<Rightarrow> report_task" where
  "plain_task tid st =
     \<lparr>rt_id = tid, rt_title = [], rt_status = st, rt_source = [], rt_metadata_source = [],
      rt_created_at = NoStamp, rt_updated_at = NoStamp, rt_preview_images = None,
      rt_metadata_preview_images = None\<rparr>"

definition scenario_report :: report where
  "scenario_report =
     \<lparr>machine_id = ''m1'', machine_name = Str [], machine_fingerprint = Str [],
      report_tasks = [plain_task ''t1'' ''completed_pending_verification'']\<rparr>"



definition timed_task :: "string \<Rightarrow> string \<Rightarrow> stamp \<Rightarrow> stamp \<Rightarrow> report_task" where
  "timed_task tid st created updated =
     (plain_task tid st)\<lparr>rt_created_at := created, rt_updated_at := updated\<rparr>"

definition timed_report :: "string \<Rightarrow> stamp \<Rightarrow> stamp \<Rightarrow> report" where
  "timed_report st created updated =
     \<lparr>machine_id = ''m'', machine_name = Str [], machine_fingerprint = Str [],
      report_tasks = [timed_task ''t'' st created updated]\<rparr>"

definition timed_state :: db where
  "timed_state =
     \<lparr>machines =
        [\<lparr>m_id = ''m'', m_name = ''m'', m_last_seen = Stamp 5000, m_online_since = Stamp 5000,
          m_fingerprint = ''m'', m_aliases = [''m''], m_display_name = []\<rparr>],
      tasks =
        [\<lparr>t_id = ''t'', t_machine_id = ''m'', t_title = ''Untitled Task'',
          t_status = Text ''in_progress'', t_created_at = Stamp 1000, t_updated_at = Stamp 2000,
          t_source = [], t_preview_images = []\<rparr>],
      history =
        [\<lparr>h_id = ''m:t:5000'', h_event = ''created'', h_machine_id = ''m'', h_task_id = ''t'',
          h_title = ''Untitled Task'', h_from_status = None, h_to_status = Text ''in_progress'',
          h_changed_at = Stamp 5000\<rparr>]\<rparr>"

definition timed_state' :: db where
  "timed_state' =
     \<lparr>machines =
        [\<lparr>m_id = ''m'', m_name = ''m'', m_last_seen = Stamp 6000, m_online_since = Stamp 5000,
          m_fingerprint = ''m'', m_aliases = [''m''], m_display_name = []\<rparr>],
      tasks =
        [\<lparr>t_id = ''t'', t_machine_id = ''m'', t_title = ''Untitled Task'',
          t_status = Text ''verified'', t_created_at = Stamp 1000, t_updated_at = Stamp 3000,
          t_source = [], t_preview_images = []\<rparr>],
      history =
        [\<lparr>h_id = ''m:t:5000'', h_event = ''created'', h_machine_id = ''m'', h_task_id = ''t'',
          h_title = ''Untitled Task'', h_from_status = None, h_to_status = Text ''in_progress'',
          h_changed_at = Stamp 5000\<rparr>,
         \<lparr>h_id = ''m:t:6000'', h_event = ''status_changed'', h_machine_id = ''m'',
          h_task_id = ''t'', h_title = ''Untitled Task'', h_from_status = Some (Text ''in_progress''),
          h_to_status = Text ''verified'', h_changed_at = Stamp 6000\<rparr>]\<rparr>"


definition ledger_event :: "string \<Rightarrow> string \<Rightarrow> string \<Rightarrow> history_event" where
  "ledger_event eid mid tid =
     \<lparr>h_id = eid, h_event = ''created'', h_machine_id = mid, h_task_id = tid, h_title = ''T'',
      h_from_status = None, h_to_status = Text ''in_progress'', h_changed_at = Stamp 10\<rparr>"

definition three_events :: db where
  "three_events =
     \<lparr>machines = [], tasks = [],
      history = [ledger_event ''e1'' ''m'' ''a'', ledger_event ''e2'' ''m'' ''b'',
                 ledger_event ''e3'' ''n'' ''a'']\<rparr>"

text \<open>The normalised (fingerprint, agent name) pair of a card, as \<^verbatim>\<open>findMachine\<close>,
  \<^verbatim>\<open>mergeMachineRecords\<close> and \<^verbatim>\<open>dedupeMachines\<close> compute it.\<close>

definition machineIdentity :: "machine \<Rightarrow> string \<times> string" where
  "machineIdentity m =
     (normalizeMachineFingerprint (m_fingerprint m) (m_id m),
      normalizeAgentName (m_name m) (m_id m))"

definition card_report :: "string \<Rightarrow> string \<Rightarrow> string \<Rightarrow> report" where
  "card_report mid fp name =
     \<lparr>machine_id = mid, machine_name = Str name, machine_fingerprint = Str fp,
      report_tasks = []\<rparr>"

definition colon_card :: machine where
  "colon_card =
     \<lparr>m_id = ''a'', m_name = ''b'', m_last_seen = Stamp 1, m_online_since = Stamp 1,
      m_fingerprint = '':'', m_aliases = [''a''], m_display_name = []\<rparr>"

definition second_card :: machine where
  "second_card =
     \<lparr>m_id = ''c'', m_name = '':b'', m_last_seen = Stamp 2, m_online_since = Stamp 2,
      m_fingerprint = ''a'', m_aliases = [''c''], m_display_name = []\<rparr>"

definition overwritten_card :: machine where
  "overwritten_card =
     \<lparr>m_id = ''a'', m_name = '':b'', m_last_seen = Stamp 3, m_online_since = Stamp 1,
      m_fingerprint = [], m_aliases = [''a''], m_display_name = []\<rparr>"

text \<open>The order of the summary in the words of the specification: online before offline;
  in the same bucket the later status-since first; then the later last-seen first; then
  by display title.\<close>

definition summaryOrder ::
  "(string \<Rightarrow> string \<Rightarrow> int) \<Rightarrow> dashboard_row \<Rightarrow> dashboard_row \<Rightarrow> bool" where
  "summaryOrder localeCompare a b =
     (let online = (\<lambda>r. agent_status (row_presence r) = ''online'');
          since = (\<lambda>r. Date_parse (status_since (row_presence r)));
          seen = (\<lambda>r. Date_parse (row_last_seen r))
      in if online a \<noteq> online b then online a
         else if since a \<noteq> since b then js_gt (since a) (since b)
         else if seen a \<noteq> seen b then js_gt (seen a) (seen b)
         else localeCompare (row_display_title a) (row_display_title b) \<le> 0)"

text \<open>What every row built at the clock reading \<open>nowMs\<close> satisfies: its status-since is a
  timestamp, and its last-seen mark fails to parse exactly when the row is offline since
  \<open>nowMs\<close>.\<close>

definition rowAt :: "int \<Rightarrow> dashboard_row \<Rightarrow> bool" where
  "rowAt nowMs r =
     ((\<exists>s. status_since (row_presence r) = Stamp s) \<and>
      ((Date_parse (row_last_seen r) = None) =
         (agent_status (row_presence r) \<noteq> ''online'' \<and>
          status_since (row_presence r) = Stamp nowMs)))"

text \<open>A comparison of strings by code units, as an instance of \<open>localeCompare\<close>.\<close>

fun codeUnitCompare :: "string \<Rightarrow> string \<Rightarrow> int" where
  "codeUnitCompare [] [] = 0"
| "codeUnitCompare [] (y # ys) = - 1"
| "codeUnitCompare (x # xs) [] = 1"
| "codeUnitCompare (x # xs) (y # ys) =
     (if (of_char x :: nat) < of_char y then - 1
      else if (of_char y :: nat) < of_char x then 1
      else codeUnitCompare xs ys)"

definition seen_card :: "string \<Rightarrow> int \<Rightarrow> int \<Rightarrow> machine" where
  "seen_card mid seen since =
     \<lparr>m_id = mid, m_name = mid, m_last_seen = Stamp seen, m_online_since = Stamp since,
      m_fingerprint = mid, m_aliases = [mid], m_display_name = []\<rparr>"

definition four_cards :: db where
  "four_cards =
     \<lparr>machines = [seen_card ''d'' 20000 10000, seen_card ''b'' 99500 80000,
                  seen_card ''c'' 30000 10000, seen_card ''a'' 99000 90000],
      tasks = [], history = []\<rparr>"

text \<open>The records that \<^verbatim>\<open>dedupeStoredTasks\<close> and \<^verbatim>\<open>dedupeMachines\<close> store for an entry whose
  key is not yet in the map, and the key of a card.\<close>

definition storedTask :: "config \<Rightarrow> task \<Rightarrow> task" where
  "storedTask cfg t =
     t\<lparr>t_source := normalizeTaskSource (t_source t),
       t_preview_images := normalizePreviewImages cfg (Some (t_preview_images t))\<rparr>"

definition storedMachine :: "int \<Rightarrow> machine \<Rightarrow> machine" where
  "storedMachine now mc =
     \<lparr>m_id = m_id mc,
      m_name = normalizeAgentName (m_name mc) (m_id mc),
      m_last_seen = or_stamp (m_last_seen mc) (Stamp now),
      m_online_since =
        or_stamp (normalizeTimestamp (m_online_since mc))
          (or_stamp (normalizeTimestamp (m_last_seen mc)) (Stamp now)),
      m_fingerprint = normalizeMachineFingerprint (m_fingerprint mc) (m_id mc),
      m_aliases = dedupeAliases (m_aliases mc @ [m_id mc]),
      m_display_name = normalizeDisplayName (m_display_name mc)\<rparr>"

definition machineKey :: "machine \<Rightarrow> string" where
  "machineKey mc =
     machineIdentityKey (normalizeMachineFingerprint (m_fingerprint mc) (m_id mc))
       (normalizeAgentName (m_name mc) (m_id mc))"

text \<open>The card that the handler creates for a source group when no stored card matches.\<close>

definition freshCard :: "int \<Rightarrow> string \<Rightarrow> string \<Rightarrow> string \<Rightarrow> string \<Rightarrow> machine" where
  "freshCard now machineId machineFingerprint sourceMachineId sourceMachineName =
     \<lparr>m_id = sourceMachineId, m_name = sourceMachineName, m_last_seen = Stamp now,
      m_online_since = Stamp now, m_fingerprint = machineFingerprint,
      m_aliases = dedupeAliases [sourceMachineId, machineId, sourceMachineId],
      m_display_name = []\<rparr>"

text \<open>The task record and the history event that the handler adds for an inbound task
  that its card does not hold yet.\<close>

definition newTask :: "config \<Rightarrow> int \<Rightarrow> string \<Rightarrow> string \<Rightarrow> report_task \<Rightarrow> task" where
  "newTask cfg now canonicalMachineId groupSource t =
     (let incomingCreatedAt = normalizeTimestamp (rt_created_at t);
          incomingUpdatedAt = normalizeTimestamp (rt_updated_at t);
          createdAt = resolveCreatedAt None incomingCreatedAt incomingUpdatedAt (Stamp now);
          incomingPreviewImages =
            normalizePreviewImages cfg
              (case rt_preview_images t of
                 Some xs \<Rightarrow> Some xs
               | None \<Rightarrow> rt_metadata_preview_images t)
      in \<lparr>t_id = rt_id t, t_machine_id = canonicalMachineId,
          t_title = or_str (rt_title t) ''Untitled Task'',
          t_status = normalizeTaskStatus (Text (rt_status t)),
          t_created_at = or_stamp createdAt (Stamp now),
          t_updated_at = resolveUpdatedAt None incomingUpdatedAt createdAt (Stamp now),
          t_source =
            normalizeTaskSource
              (or_str (rt_source t) (or_str (rt_metadata_source t) (or_str groupSource []))),
          t_preview_images =
            (if incomingPreviewImages \<noteq> [] then incomingPreviewImages
             else normalizePreviewImages cfg None)\<rparr>)"

definition createdEvent :: "int \<Rightarrow> string \<Rightarrow> report_task \<Rightarrow> history_event" where
  "createdEvent now canonicalMachineId t =
     \<lparr>h_id = canonicalMachineId @ '':'' @ rt_id t @ '':'' @ decimal_int now,
      h_event = ''created'', h_machine_id = canonicalMachineId, h_task_id = rt_id t,
      h_title = or_str (rt_title t) ''Untitled Task'', h_from_status = None,
      h_to_status = normalizeTaskStatus (Text (rt_status t)), h_changed_at = Stamp now\<rparr>"

text \<open>The card that the handler leaves when the report matches a stored card \<open>mc\<close>, the
  task record that it leaves when the card holds the inbound task already as \<open>e\<close>, and the
  history event for a change of status.\<close>

definition seenCard :: "config \<Rightarrow> int \<Rightarrow> string \<Rightarrow> string \<Rightarrow> string \<Rightarrow> string \<Rightarrow> machine \<Rightarrow> machine" where
  "seenCard cfg now machineId machineFingerprint sourceMachineId sourceMachineName mc =
     mc\<lparr>m_name := sourceMachineName,
        m_last_seen := Stamp now,
        m_online_since :=
          (if \<not> isMachineOnline cfg mc now \<or> normalizeTimestamp (m_online_since mc) = NoStamp
           then Stamp now else m_online_since mc),
        m_fingerprint := machineFingerprint,
        m_aliases := dedupeAliases (m_aliases mc @ [m_id mc, sourceMachineId, machineId])\<rparr>"

definition updatedTask :: "config \<Rightarrow> int \<Rightarrow> string \<Rightarrow> string \<Rightarrow> task \<Rightarrow> report_task \<Rightarrow> task" where
  "updatedTask cfg now canonicalMachineId groupSource e t =
     (let nextSource =
            normalizeTaskSource
              (or_str (rt_source t)
                (or_str (rt_metadata_source t) (or_str groupSource (t_source e))));
          incomingCreatedAt = normalizeTimestamp (rt_created_at t);
          incomingUpdatedAt = normalizeTimestamp (rt_updated_at t);
          createdAt = resolveCreatedAt (Some e) incomingCreatedAt incomingUpdatedAt (Stamp now);
          incomingPreviewImages =
            normalizePreviewImages cfg
              (case rt_preview_images t of
                 Some xs \<Rightarrow> Some xs
               | None \<Rightarrow> rt_metadata_preview_images t);
          previewImages =
            (if incomingPreviewImages \<noteq> [] then incomingPreviewImages
             else normalizePreviewImages cfg (Some (t_preview_images e)))
      in e\<lparr>t_id := rt_id t, t_machine_id := canonicalMachineId,
           t_title := or_str (rt_title t) ''Untitled Task'',
           t_status := normalizeTaskStatus (Text (rt_status t)),
           t_created_at := createdAt,
           t_updated_at := resolveUpdatedAt (Some e) incomingUpdatedAt createdAt (Stamp now),
           t_source := (if nextSource \<noteq> [] then nextSource else t_source e),
           t_preview_images := (if previewImages \<noteq> [] then previewImages
                                else t_preview_images e)\<rparr>)"

definition changedEvent :: "int \<Rightarrow> string \<Rightarrow> task \<Rightarrow> report_task \<Rightarrow> history_event" where
  "changedEvent now canonicalMachineId e t =
     \<lparr>h_id = canonicalMachineId @ '':'' @ rt_id t @ '':'' @ decimal_int now,
      h_event = ''status_changed'', h_machine_id = canonicalMachineId, h_task_id = rt_id t,
      h_title = or_str (rt_title t) ''Untitled Task'',
      h_from_status = Some (normalizeTaskStatus (t_status e)),
      h_to_status = normalizeTaskStatus (Text (rt_status t)), h_changed_at = Stamp now\<rparr>"






text \<open>The normalised source of an inbound task, as \<^verbatim>\<open>dedupeIncomingTasks\<close> and
  \<^verbatim>\<open>splitTasksBySource\<close> compute it, and the task with that source written back.\<close>

definition taskSource :: "report_task \<Rightarrow> string" where
  "taskSource t = normalizeTaskSource (or_str (rt_source t) (rt_metadata_source t))"

definition sourcedTask :: "report_task \<Rightarrow> report_task" where
  "sourcedTask t = t\<lparr>rt_source := taskSource t\<rparr>"

definition sourced_task :: "string \<Rightarrow> string \<Rightarrow> report_task" where
  "sourced_task tid src = (plain_task tid ''in_progress'')\<lparr>rt_source := src\<rparr>"

definition sources_report :: "report_task list \<Rightarrow> report" where
  "sources_report ts =
     \<lparr>machine_id = ''m'', machine_name = Str ''Mac'', machine_fingerprint = Str [],
      report_tasks = ts\<rparr>"


section \<open>Presence projection\<close>

lemma timeout_positive: "0 < AGENT_OFFLINE_TIMEOUT_MS cfg"
  by (simp add: AGENT_OFFLINE_TIMEOUT_MS_def)

text \<open>
  Claim C4, as the source has it. A card is online exactly when its last-seen mark parses
  and \<open>nowMs - lastSeen \<le> timeout\<close>. Otherwise it is offline, its offline-since is
  \<open>min (max (lastSeen + timeout) 0) nowMs\<close> (with \<open>nowMs\<close> in place of
  \<open>lastSeen + timeout\<close> when the last-seen mark does not parse), and its online-since is
  the stored one when that parses and \<open>null\<close> otherwise. For a parseable last-seen mark
  the offline-since lies between \<open>lastSeen\<close> and \<open>nowMs\<close>, and it is
  \<open>min (lastSeen + timeout) nowMs\<close> whenever \<open>lastSeen + timeout\<close> is not negative.
\<close>

theorem presence_projection:
  "(agent_status (resolveMachinePresence cfg mc nowMs) = ''online'' \<longleftrightarrow>
      (\<exists>ls. m_last_seen mc = Stamp ls \<and> nowMs - ls \<le> AGENT_OFFLINE_TIMEOUT_MS cfg)) \<and>
   (agent_status (resolveMachinePresence cfg mc nowMs) \<noteq> ''online'' \<longrightarrow>
      agent_status (resolveMachinePresence cfg mc nowMs) = ''offline'' \<and>
      offline_since (resolveMachinePresence cfg mc nowMs) =
        Stamp (min (max (case m_last_seen mc of
                           Stamp ls \<Rightarrow> ls + AGENT_OFFLINE_TIMEOUT_MS cfg
                         | _ \<Rightarrow> nowMs) 0) nowMs) \<and>
      online_since (resolveMachinePresence cfg mc nowMs) =
        normalizeTimestamp (m_online_since mc) \<and>
      (online_since (resolveMachinePresence cfg mc nowMs) = NoStamp \<longleftrightarrow>
         (\<forall>t. m_online_since mc \<noteq> Stamp t)) \<and>
      (\<forall>ls. m_last_seen mc = Stamp ls \<longrightarrow>
         (\<exists>off. offline_since (resolveMachinePresence cfg mc nowMs) = Stamp off \<and>
                ls \<le> off \<and> off \<le> nowMs \<and>
                (0 \<le> ls + AGENT_OFFLINE_TIMEOUT_MS cfg \<longrightarrow>
                   off = min (ls + AGENT_OFFLINE_TIMEOUT_MS cfg) nowMs))))"
  using timeout_positive[of cfg]
  by (cases "m_last_seen mc"; cases "m_online_since mc")
     (auto simp: resolveMachinePresence_def Date_parse_def normalizeTimestamp_def
        or_stamp_def Let_def)

lemma stale_card_facts:
  "m_last_seen stale_card = Stamp 1000" "m_online_since stale_card = BadStamp"
  "AGENT_OFFLINE_TIMEOUT_MS default_config = 45000"
  by (simp_all add: stale_card_def AGENT_OFFLINE_TIMEOUT_MS_def default_config_def)

theorem presence_projection_witness:
  "agent_status (resolveMachinePresence default_config stale_card 100000) = ''offline'' \<and>
   offline_since (resolveMachinePresence default_config stale_card 100000) = Stamp 46000 \<and>
   online_since (resolveMachinePresence default_config stale_card 100000) = NoStamp"
  using presence_projection[of default_config stale_card 100000]
  by (simp add: stale_card_facts normalizeTimestamp_def Date_parse_def)

text \<open>The formula of the claim, \<open>min (lastSeen + timeout) now\<close>, fails for a card last seen
  before the epoch: the source clamps at 0 first.\<close>

theorem presence_offline_since_counterexample:
  "agent_status (resolveMachinePresence default_config old_card 1000) = ''offline'' \<and>
   offline_since (resolveMachinePresence default_config old_card 1000) = Stamp 0 \<and>
   offline_since (resolveMachinePresence default_config old_card 1000)
     \<noteq> Stamp (min (- 100000 + AGENT_OFFLINE_TIMEOUT_MS default_config) 1000)"
  by (simp add: resolveMachinePresence_def Date_parse_def normalizeTimestamp_def or_stamp_def
      Let_def old_card_def AGENT_OFFLINE_TIMEOUT_MS_def default_config_def)

section \<open>Status normalisation\<close>

lemma scenario_detail:
  "\<exists>d. getMachineDetail default_config 2000
          (snd (postReport default_config 1000 empty_db scenario_report)) ''m1'' = Ok200 d \<and>
        map (\<lambda>t. (t_id t, t_status t)) (detail_tasks d) = [(''t1'', Text ''awaiting_verification'')]"
proof -
  have "(case getMachineDetail default_config 2000
          (snd (postReport default_config 1000 empty_db scenario_report)) ''m1'' of
          Ok200 d \<Rightarrow> map (\<lambda>t. (t_id t, t_status t)) (detail_tasks d) = [(''t1'', Text ''awaiting_verification'')]
        | NotFound _ \<Rightarrow> False)"
    by code_simp
  then show ?thesis by (auto split: http_response.splits)
qed

lemma blank_not_inherited: "[] \<notin> set inherited_members"
  by (simp add: inherited_members_def)

text \<open>
  Claim C2, as the source has it. After trimming, \<open>running\<close> and \<open>active\<close> become
  \<open>in_progress\<close>; \<open>done\<close> and \<open>completed\<close> become \<open>verified\<close>;
  \<open>completed_pending_verification\<close> (and \<open>awaiting_verification\<close> itself) become
  \<open>awaiting_verification\<close>; a blank value becomes \<open>in_progress\<close>; and every other
  value that is not the name of an inherited member is returned unchanged. End to end:
  after the report \<open>scenario_report\<close> on the empty store, the detail of card \<open>m1\<close>
  shows task \<open>t1\<close> with status \<open>awaiting_verification\<close>.
\<close>

theorem normalizeTaskStatus_aliases:
  "(trim s = ''running'' \<or> trim s = ''active'' \<longrightarrow> normalizeTaskStatus (Text s) = Text ''in_progress'') \<and>
   (trim s = ''done'' \<or> trim s = ''completed'' \<longrightarrow> normalizeTaskStatus (Text s) = Text ''verified'') \<and>
   (trim s = ''completed_pending_verification'' \<or> trim s = ''awaiting_verification'' \<longrightarrow>
      normalizeTaskStatus (Text s) = Text ''awaiting_verification'') \<and>
   (trim s = [] \<longrightarrow> normalizeTaskStatus (Text s) = Text ''in_progress'') \<and>
   (trim s \<noteq> [] \<and>
    trim s \<notin> set [''running'', ''active'', ''done'', ''completed'',
                   ''completed_pending_verification'', ''awaiting_verification''] \<and>
    trim s \<notin> set inherited_members \<longrightarrow> normalizeTaskStatus (Text s) = Text (trim s)) \<and>
   (\<exists>d. getMachineDetail default_config 2000
          (snd (postReport default_config 1000 empty_db scenario_report)) ''m1'' = Ok200 d \<and>
        map (\<lambda>t. (t_id t, t_status t)) (detail_tasks d) = [(''t1'', Text ''awaiting_verification'')])"
  using scenario_detail blank_not_inherited
  by (auto simp: normalizeTaskStatus_def status_alias_def status_text_def or_str_def Let_def)

theorem normalizeTaskStatus_aliases_witness:
  "normalizeTaskStatus (Text '' done '') = Text ''verified'' \<and>
   normalizeTaskStatus (Text ''  '') = Text ''in_progress'' \<and>
   normalizeTaskStatus (Text ''paused'') = Text ''paused''"
  using normalizeTaskStatus_aliases[of "'' done ''"] normalizeTaskStatus_aliases[of "''  ''"]
    normalizeTaskStatus_aliases[of "''paused''"]
  by (simp add: trim_def js_whitespace_def inherited_members_def)

text \<open>The table has no entry for \<open>archived\<close>, and an unknown value is not replaced by
  \<open>in_progress\<close>.\<close>

theorem normalizeTaskStatus_counterexample:
  "normalizeTaskStatus (Text ''archived'') \<noteq> Text ''verified'' \<and>
   normalizeTaskStatus (Text ''paused'') \<noteq> Text ''in_progress''"
  by (simp add: normalizeTaskStatus_def status_alias_def status_text_def or_str_def Let_def
      trim_def js_whitespace_def inherited_members_def)


section \<open>Validation of a report\<close>



section \<open>Task upsert\<close>

lemma findIndex_None: "findIndex P xs = None \<longleftrightarrow> (\<forall>x \<in> set xs. \<not> P x)"
  by (induction xs) auto

lemma findIndex_Some:
  "findIndex P xs = Some i \<Longrightarrow> i < length xs \<and> P (xs ! i) \<and> (\<forall>j < i. \<not> P (xs ! j))"
proof (induction xs arbitrary: i)
  case Nil
  then show ?case by simp
next
  case (Cons x xs)
  show ?case
  proof (cases "P x")
    case True
    with Cons.prems show ?thesis by simp
  next
    case False
    with Cons.prems obtain k where k: "findIndex P xs = Some k" "i = Suc k"
      by auto
    from Cons.IH[OF k(1)] False k(2) show ?thesis
      by (auto simp: nth_Cons split: nat.splits)
  qed
qed

lemma findIndex_append_new:
  "findIndex P xs = None \<Longrightarrow> P y \<Longrightarrow> findIndex P (xs @ [y]) = Some (length xs)"
  by (induction xs) (auto split: if_splits)

lemma findIndex_update_same:
  "findIndex P xs = Some i \<Longrightarrow> P y \<Longrightarrow> findIndex P (xs[i := y]) = Some i"
proof (induction xs arbitrary: i)
  case Nil
  then show ?case by simp
next
  case (Cons x xs)
  show ?case
  proof (cases "P x")
    case True
    with Cons.prems show ?thesis by simp
  next
    case False
    with Cons.prems obtain k where k: "findIndex P xs = Some k" "i = Suc k"
      by auto
    from Cons.IH[OF k(1) Cons.prems(2)] False k(2) show ?thesis by simp
  qed
qed

lemma tasks_appendHistory [simp]: "tasks (appendHistory cfg d ev) = tasks d"
  by (simp add: appendHistory_def Let_def)

lemma machines_appendHistory [simp]: "machines (appendHistory cfg d ev) = machines d"
  by (simp add: appendHistory_def Let_def)

text \<open>The timestamps of the stored task after one upsert.\<close>

lemma upsertTask_new_times:
  assumes "rt_id t \<noteq> []"
    and "findIndex (\<lambda>tt. t_id tt = rt_id t \<and> t_machine_id tt = cid) (tasks d) = None"
  shows "\<exists>i. findIndex (\<lambda>tt. t_id tt = rt_id t \<and> t_machine_id tt = cid)
               (tasks (upsertTask cfg now cid gs d t)) = Some i \<and>
             t_created_at (tasks (upsertTask cfg now cid gs d t) ! i) =
               or_stamp (resolveCreatedAt None (normalizeTimestamp (rt_created_at t))
                 (normalizeTimestamp (rt_updated_at t)) (Stamp now)) (Stamp now) \<and>
             t_updated_at (tasks (upsertTask cfg now cid gs d t) ! i) =
               resolveUpdatedAt None (normalizeTimestamp (rt_updated_at t))
                 (resolveCreatedAt None (normalizeTimestamp (rt_created_at t))
                   (normalizeTimestamp (rt_updated_at t)) (Stamp now)) (Stamp now)"
  using assms
  by (simp add: upsertTask_def Let_def findIndex_append_new)

lemma upsertTask_existing_times:
  assumes "rt_id t \<noteq> []"
    and "findIndex (\<lambda>tt. t_id tt = rt_id t \<and> t_machine_id tt = cid) (tasks d) = Some i"
  shows "findIndex (\<lambda>tt. t_id tt = rt_id t \<and> t_machine_id tt = cid)
               (tasks (upsertTask cfg now cid gs d t)) = Some i \<and>
             t_created_at (tasks (upsertTask cfg now cid gs d t) ! i) =
               resolveCreatedAt (Some (tasks d ! i)) (normalizeTimestamp (rt_created_at t))
                 (normalizeTimestamp (rt_updated_at t)) (Stamp now) \<and>
             t_updated_at (tasks (upsertTask cfg now cid gs d t) ! i) =
               resolveUpdatedAt (Some (tasks d ! i)) (normalizeTimestamp (rt_updated_at t))
                 (resolveCreatedAt (Some (tasks d ! i)) (normalizeTimestamp (rt_created_at t))
                   (normalizeTimestamp (rt_updated_at t)) (Stamp now)) (Stamp now)"
proof -
  from findIndex_Some[OF assms(2)] have i: "i < length (tasks d)" by simp
  show ?thesis
    using assms i
    by (simp add: upsertTask_def Let_def findIndex_update_same)
qed

lemma timestamp_scenario:
  assumes "rt_id t \<noteq> []"
    and "findIndex (\<lambda>tt. t_id tt = rt_id t \<and> t_machine_id tt = cid) (tasks d) = None"
    and "rt_created_at t = Stamp T0" and "rt_updated_at t = Stamp T1"
    and "rt_id t' = rt_id t" and "Date_parse (rt_created_at t') = None"
    and "rt_updated_at t' = Stamp T2"
  shows "\<exists>i. findIndex (\<lambda>tt. t_id tt = rt_id t \<and> t_machine_id tt = cid)
               (tasks (upsertTask cfg now' cid gs' (upsertTask cfg now cid gs d t) t')) = Some i \<and>
             t_created_at (tasks (upsertTask cfg now' cid gs' (upsertTask cfg now cid gs d t) t') ! i)
               = Stamp T0 \<and>
             t_updated_at (tasks (upsertTask cfg now' cid gs' (upsertTask cfg now cid gs d t) t') ! i)
               = Stamp T2"
proof -
  let ?P = "\<lambda>tt. t_id tt = rt_id t \<and> t_machine_id tt = cid"
  let ?d1 = "upsertTask cfg now cid gs d t"
  from upsertTask_new_times[OF assms(1,2), of cfg now gs]
  obtain i where i: "findIndex ?P (tasks ?d1) = Some i"
      "t_created_at (tasks ?d1 ! i) = Stamp T0" "t_updated_at (tasks ?d1 ! i) = Stamp T1"
    using assms(3,4)
    by (auto simp: resolveCreatedAt_def resolveUpdatedAt_def normalizeTimestamp_def
        Date_parse_def or_stamp_def Let_def)
  have P': "(\<lambda>tt. t_id tt = rt_id t' \<and> t_machine_id tt = cid) = ?P"
    using assms(5) by simp
  from assms(1,5) have id': "rt_id t' \<noteq> []" by simp
  from upsertTask_existing_times[OF id', of cid ?d1 i cfg now' gs'] i(1)
  have "findIndex ?P (tasks (upsertTask cfg now' cid gs' ?d1 t')) = Some i \<and>
        t_created_at (tasks (upsertTask cfg now' cid gs' ?d1 t') ! i) =
          resolveCreatedAt (Some (tasks ?d1 ! i)) (normalizeTimestamp (rt_created_at t'))
            (normalizeTimestamp (rt_updated_at t')) (Stamp now') \<and>
        t_updated_at (tasks (upsertTask cfg now' cid gs' ?d1 t') ! i) =
          resolveUpdatedAt (Some (tasks ?d1 ! i)) (normalizeTimestamp (rt_updated_at t'))
            (resolveCreatedAt (Some (tasks ?d1 ! i)) (normalizeTimestamp (rt_created_at t'))
              (normalizeTimestamp (rt_updated_at t')) (Stamp now')) (Stamp now')"
    by (simp add: assms(5))
  moreover have "normalizeTimestamp (rt_created_at t') = NoStamp"
    using assms(6) by (simp add: normalizeTimestamp_def)
  ultimately show ?thesis
    using i(2,3) assms(7)
    by (auto simp: resolveCreatedAt_def resolveUpdatedAt_def normalizeTimestamp_def
        Date_parse_def or_stamp_def Let_def)
qed



text \<open>Two reports of the same task on the empty store, step by step.\<close>

lemma timed_first_report:
  "snd (postReport default_config 5000 empty_db
          (timed_report ''in_progress'' (Stamp 1000) (Stamp 2000))) = timed_state"
  by code_simp

lemma timed_second_report:
  "snd (postReport default_config 6000 timed_state (timed_report ''verified'' NoStamp (Stamp 3000))) =
     timed_state'"
  by code_simp

lemma timed_reports:
  "postReports default_config empty_db
     [(5000, timed_report ''in_progress'' (Stamp 1000) (Stamp 2000)),
      (6000, timed_report ''verified'' NoStamp (Stamp 3000))] = timed_state'"
  by (simp add: postReports_def timed_first_report timed_second_report)

lemma timed_detail:
  "\<exists>d. getMachineDetail default_config 9000 timed_state' ''m'' = Ok200 d \<and>
        map (\<lambda>t. (t_id t, t_created_at t, t_updated_at t)) (detail_tasks d) =
          [(''t'', Stamp 1000, Stamp 3000)]"
proof -
  have "(case getMachineDetail default_config 9000 timed_state' ''m'' of
          Ok200 d \<Rightarrow> map (\<lambda>t. (t_id t, t_created_at t, t_updated_at t)) (detail_tasks d) =
             [(''t'', Stamp 1000, Stamp 3000)]
        | NotFound _ \<Rightarrow> False)"
    by code_simp
  then show ?thesis by (auto split: http_response.splits)
qed


section \<open>History of status transitions\<close>


lemma upsertTask_history_existing:
  assumes "rt_id t \<noteq> []"
    and "findIndex (\<lambda>tt. t_id tt = rt_id t \<and> t_machine_id tt = cid) (tasks d) = Some i"
  shows "history (upsertTask cfg now cid gs d t) =
     (if normalizeTaskStatus (t_status (tasks d ! i)) \<noteq> normalizeTaskStatus (Text (rt_status t))
      then history (appendHistory cfg d
             \<lparr>h_id = cid @ '':'' @ rt_id t @ '':'' @ decimal_int now,
              h_event = ''status_changed'', h_machine_id = cid, h_task_id = rt_id t,
              h_title = or_str (rt_title t) ''Untitled Task'',
              h_from_status = Some (normalizeTaskStatus (t_status (tasks d ! i))),
              h_to_status = normalizeTaskStatus (Text (rt_status t)), h_changed_at = Stamp now\<rparr>)
      else history d)"
  using assms by (simp add: upsertTask_def Let_def)

lemma upsertTask_history_new:
  assumes "rt_id t \<noteq> []"
    and "findIndex (\<lambda>tt. t_id tt = rt_id t \<and> t_machine_id tt = cid) (tasks d) = None"
  shows "history (upsertTask cfg now cid gs d t) =
     history (appendHistory cfg d
       \<lparr>h_id = cid @ '':'' @ rt_id t @ '':'' @ decimal_int now,
        h_event = ''created'', h_machine_id = cid, h_task_id = rt_id t,
        h_title = or_str (rt_title t) ''Untitled Task'',
        h_from_status = None,
        h_to_status = normalizeTaskStatus (Text (rt_status t)), h_changed_at = Stamp now\<rparr>)"
  using assms by (simp add: upsertTask_def Let_def appendHistory_def)

lemma timed_history:
  "getHistory default_config 9000 timed_state' ''m'' ''t'' (Finite 10) =
     \<lparr>total = 2, items = rev (history timed_state')\<rparr> \<and>
   filter (\<lambda>e. h_event e = ''status_changed'') (history timed_state') =
     [\<lparr>h_id = ''m:t:6000'', h_event = ''status_changed'', h_machine_id = ''m'',
       h_task_id = ''t'', h_title = ''Untitled Task'', h_from_status = Some (Text ''in_progress''),
       h_to_status = Text ''verified'', h_changed_at = Stamp 6000\<rparr>]"
  by code_simp

lemma normalizeTaskStatus_fixed:
  "normalizeTaskStatus (Text ''in_progress'') = Text ''in_progress''"
  "normalizeTaskStatus (Text ''verified'') = Text ''verified''"
  by (simp_all add: normalizeTaskStatus_def status_alias_def status_text_def or_str_def trim_def
      js_whitespace_def inherited_members_def)

section \<open>Splitting a report by source\<close>

subsection \<open>Strings\<close>

lemma strip_ends:
  assumes "rev (dropWhile P (rev (dropWhile P s))) \<noteq> []"
  shows "\<not> P (hd (rev (dropWhile P (rev (dropWhile P s))))) \<and>
         \<not> P (last (rev (dropWhile P (rev (dropWhile P s)))))"
proof -
  let ?a = "dropWhile P s"
  let ?b = "dropWhile P (rev ?a)"
  from assms have b: "?b \<noteq> []" by simp
  then have a: "?a \<noteq> []" by (cases "dropWhile P s") simp_all
  have hb: "\<not> P (hd ?b)" using b by (rule hd_dropWhile)
  have ha: "\<not> P (hd ?a)" using a by (rule hd_dropWhile)
  obtain us where us: "rev ?a = us @ ?b"
    by (metis takeWhile_dropWhile_id)
  with b have "last (rev ?a) = last ?b" by (metis last_appendR)
  moreover from a have "last (rev ?a) = hd ?a" by (simp add: last_rev)
  ultimately have lb: "\<not> P (last ?b)" using ha by simp
  from b hb lb show ?thesis by (simp add: hd_rev last_rev)
qed

lemma strip_keep:
  assumes "s \<noteq> []" "\<not> P (hd s)" "\<not> P (last s)"
  shows "rev (dropWhile P (rev (dropWhile P s))) = s"
proof -
  from assms(1,2) have a: "dropWhile P s = s" by (cases s) simp_all
  from assms(1,3) have "dropWhile P (rev s) = rev s"
    by (cases "rev s") (simp_all add: last_rev[symmetric] hd_rev)
  with a show ?thesis by simp
qed

lemma strip_idem:
  "rev (dropWhile P (rev (dropWhile P (rev (dropWhile P (rev (dropWhile P s))))))) =
   rev (dropWhile P (rev (dropWhile P s)))"
proof -
  define t where "t = rev (dropWhile P (rev (dropWhile P s)))"
  have "rev (dropWhile P (rev (dropWhile P t))) = t"
  proof (cases "t = []")
    case True
    then show ?thesis by simp
  next
    case False
    with strip_ends[of P s] have "\<not> P (hd t) \<and> \<not> P (last t)"
      unfolding t_def by blast
    with False show ?thesis by (simp add: strip_keep)
  qed
  then show ?thesis unfolding t_def .
qed

lemma trim_ends: "trim s \<noteq> [] \<Longrightarrow> \<not> js_whitespace (hd (trim s)) \<and> \<not> js_whitespace (last (trim s))"
  unfolding trim_def by (rule strip_ends)

lemma trim_keep:
  "s \<noteq> [] \<Longrightarrow> \<not> js_whitespace (hd s) \<Longrightarrow> \<not> js_whitespace (last s) \<Longrightarrow> trim s = s"
  unfolding trim_def by (rule strip_keep)

lemma trim_idem [simp]: "trim (trim s) = trim s"
  unfolding trim_def by (rule strip_idem)

lemma trim_Nil [simp]: "trim [] = []"
  by (simp add: trim_def)

lemma trim_nonempty:
  assumes "s \<noteq> []" "\<not> js_whitespace (hd s)"
  shows "trim s \<noteq> []"
proof -
  from assms have a: "dropWhile js_whitespace s = s" by (cases s) simp_all
  from assms have "hd s \<in> set (rev s)" by simp
  with assms(2) have "dropWhile js_whitespace (rev s) \<noteq> []"
    by (metis dropWhile_eq_Nil_conv)
  with a show ?thesis by (simp add: trim_def)
qed


subsection \<open>Normalised names\<close>

lemma trimmed_fixed: "trim s = s \<Longrightarrow> s \<noteq> [] \<Longrightarrow> \<not> js_whitespace (hd s) \<and> \<not> js_whitespace (last s)"
  using trim_ends[of s] by simp

lemma trim_literals [simp]:
  "trim ''Unknown'' = ''Unknown''" "trim ''Codex'' = ''Codex''"
  "trim ''Claude Code'' = ''Claude Code''" "trim ''OpenCode'' = ''OpenCode''"
  by (simp_all add: trim_def js_whitespace_def)

lemma normalizeAgentName_trimmed:
  "trim (normalizeAgentName v f) = normalizeAgentName v f \<and> normalizeAgentName v f \<noteq> []"
  by (simp add: normalizeAgentName_def or_str_def Let_def)

lemma normalizeAgentName_idem [simp]:
  "normalizeAgentName (normalizeAgentName v f) g = normalizeAgentName v f"
  using normalizeAgentName_trimmed[of v f]
  by (simp add: normalizeAgentName_def[of "normalizeAgentName v f"] Let_def)

lemma normalizeTaskSource_trimmed:
  "trim (normalizeTaskSource v) = normalizeTaskSource v"
  by (simp add: normalizeTaskSource_def Let_def)

lemma normalizeTaskSource_idem [simp]:
  "normalizeTaskSource (normalizeTaskSource v) = normalizeTaskSource v"
proof -
  have c: "normalizeTaskSource ''Codex'' = ''Codex''"
    "normalizeTaskSource ''Claude Code'' = ''Claude Code''"
    "normalizeTaskSource ''OpenCode'' = ''OpenCode''"
    by code_simp+
  show ?thesis
    using c by (simp add: normalizeTaskSource_def[of v] Let_def)
       (simp add: normalizeTaskSource_def Let_def)
qed

lemma normalizeMachineFingerprint_trimmed:
  "trim (normalizeMachineFingerprint v f) = normalizeMachineFingerprint v f"
  by (simp add: normalizeMachineFingerprint_def Let_def)

lemma normalizeMachineFingerprint_idem:
  "normalizeMachineFingerprint v f \<noteq> [] \<Longrightarrow>
   normalizeMachineFingerprint (normalizeMachineFingerprint v f) g = normalizeMachineFingerprint v f"
  using normalizeMachineFingerprint_trimmed[of v f]
  by (simp add: normalizeMachineFingerprint_def[of "normalizeMachineFingerprint v f"] Let_def)


subsection \<open>Source tokens and card ids\<close>

lemma set_replace_runs_from:
  "set (replace_runs_from P r b s) \<subseteq> set r \<union> {c \<in> set s. \<not> P c}"
  by (induction s arbitrary: b) auto

lemma slugify_chars: "c \<in> set (slugify s) \<Longrightarrow> lower_alnum c \<or> c = CHR ''-''"
  using set_replace_runs_from[of "\<lambda>c. \<not> lower_alnum c" "''-''" False "toLowerCase s"]
  by (auto simp: slugify_def replace_runs_def)

lemma lower_alnum_plain: "lower_alnum c \<Longrightarrow> \<not> js_whitespace c \<and> c \<noteq> CHR '':''"
  by (auto simp: lower_alnum_def js_whitespace_def)

lemma strip_dashes_chars: "c \<in> set (strip_dashes s) \<Longrightarrow> c \<in> set s"
  unfolding strip_dashes_def
  by (metis set_dropWhileD set_rev)

lemma token_chars:
  assumes "c \<in> set (normalizeSourceToken v)"
  shows "lower_alnum c \<or> c = CHR ''-''"
proof -
  from assms have "c \<in> set (strip_dashes (slugify (normalizeTaskSource v)))"
    by (simp add: normalizeSourceToken_def Let_def split: if_splits)
  then show ?thesis using strip_dashes_chars slugify_chars by blast
qed

lemma token_no_colon: "CHR '':'' \<notin> set (normalizeSourceToken v)"
  using token_chars[of "CHR '':''" v] lower_alnum_plain[of "CHR '':''"] by auto

lemma token_last:
  assumes "normalizeSourceToken v \<noteq> []"
  shows "\<not> js_whitespace (last (normalizeSourceToken v))"
proof -
  let ?k = "normalizeSourceToken v"
  from assms have k: "?k = strip_dashes (slugify (normalizeTaskSource v))"
    by (simp add: normalizeSourceToken_def Let_def split: if_splits)
  with assms have "strip_dashes (slugify (normalizeTaskSource v)) \<noteq> []" by simp
  then have "last (strip_dashes (slugify (normalizeTaskSource v))) \<noteq> CHR ''-''"
    unfolding strip_dashes_def using strip_ends[of "\<lambda>c. c = CHR ''-''"] by blast
  with k have nd: "last ?k \<noteq> CHR ''-''" by simp
  from assms have "last ?k \<in> set ?k" by simp
  with token_chars nd have "lower_alnum (last ?k)" by blast
  then show ?thesis using lower_alnum_plain by blast
qed

lemma source_id_trimmed:
  assumes "mid \<noteq> []" "\<not> js_whitespace (hd mid)" "normalizeSourceToken v \<noteq> []"
  shows "trim (mid @ ''::'' @ normalizeSourceToken v) = mid @ ''::'' @ normalizeSourceToken v"
proof (rule trim_keep)
  show "mid @ ''::'' @ normalizeSourceToken v \<noteq> []" using assms(1) by simp
  show "\<not> js_whitespace (hd (mid @ ''::'' @ normalizeSourceToken v))"
    using assms(1,2) by simp
  show "\<not> js_whitespace (last (mid @ ''::'' @ normalizeSourceToken v))"
    using assms(3) token_last[OF assms(3)] by simp
qed

lemma takeWhile_until: "a \<notin> set xs \<Longrightarrow> takeWhile (\<lambda>c. c \<noteq> a) (xs @ a # ys) = xs"
  by (induction xs) auto

lemma source_key_distinct:
  assumes "mid @ ''::'' @ normalizeSourceToken v @ ''::'' @ x =
           mid @ ''::'' @ normalizeSourceToken w @ ''::'' @ y"
  shows "normalizeSourceToken v = normalizeSourceToken w"
proof -
  from assms have e: "normalizeSourceToken v @ CHR '':'' # CHR '':'' # x =
                      normalizeSourceToken w @ CHR '':'' # CHR '':'' # y" by simp
  have "takeWhile (\<lambda>c. c \<noteq> CHR '':'') (normalizeSourceToken v @ CHR '':'' # CHR '':'' # x) =
        normalizeSourceToken v"
    using token_no_colon[of v] by (rule takeWhile_until)
  moreover have "takeWhile (\<lambda>c. c \<noteq> CHR '':'') (normalizeSourceToken w @ CHR '':'' # CHR '':'' # y) =
        normalizeSourceToken w"
    using token_no_colon[of w] by (rule takeWhile_until)
  ultimately show ?thesis using e by simp
qed


subsection \<open>Deduplication of entries with distinct keys\<close>

lemma map_set_fresh: "k \<notin> fst ` set kvs \<Longrightarrow> map_set k v kvs = kvs @ [(k, v)]"
  by (induction kvs) auto

lemma map_of_fresh: "k \<notin> fst ` set kvs \<Longrightarrow> map_of kvs k = None"
  by (simp add: map_of_eq_None_iff)

lemma foldl_dedupeStoredTasks:
  "\<forall>t\<in>set ts. t_id t \<noteq> [] \<and> t_machine_id t \<noteq> [] \<Longrightarrow>
   distinct (map (\<lambda>t. taskKey (t_machine_id t) (t_id t)) ts) \<Longrightarrow>
   \<forall>t\<in>set ts. taskKey (t_machine_id t) (t_id t) \<notin> fst ` set acc \<Longrightarrow>
   foldl (dedupeStoredTasks_step cfg) acc ts =
     acc @ map (\<lambda>t. (taskKey (t_machine_id t) (t_id t), storedTask cfg t)) ts"
proof (induction ts arbitrary: acc)
  case Nil
  show ?case by simp
next
  case (Cons t ts)
  let ?k = "taskKey (t_machine_id t) (t_id t)"
  from Cons.prems(3) have fresh: "?k \<notin> fst ` set acc" by simp
  from Cons.prems(1) have ids: "t_id t \<noteq> []" "t_machine_id t \<noteq> []" by simp_all
  have step: "dedupeStoredTasks_step cfg acc t = acc @ [(?k, storedTask cfg t)]"
    using ids by (simp add: dedupeStoredTasks_step_def Let_def storedTask_def map_set_fresh[OF fresh])
  have "foldl (dedupeStoredTasks_step cfg) (acc @ [(?k, storedTask cfg t)]) ts =
        (acc @ [(?k, storedTask cfg t)]) @
          map (\<lambda>t. (taskKey (t_machine_id t) (t_id t), storedTask cfg t)) ts"
  proof (rule Cons.IH)
    show "\<forall>t\<in>set ts. t_id t \<noteq> [] \<and> t_machine_id t \<noteq> []" using Cons.prems(1) by simp
    show "distinct (map (\<lambda>t. taskKey (t_machine_id t) (t_id t)) ts)" using Cons.prems(2) by simp
    show "\<forall>u\<in>set ts. taskKey (t_machine_id u) (t_id u) \<notin> fst ` set (acc @ [(?k, storedTask cfg t)])"
      using Cons.prems(2,3) by (fastforce simp: image_iff)
  qed
  with step show ?case by simp
qed

lemma dedupeStoredTasks_distinct:
  assumes "\<forall>t\<in>set ts. t_id t \<noteq> [] \<and> t_machine_id t \<noteq> []"
    and "distinct (map (\<lambda>t. taskKey (t_machine_id t) (t_id t)) ts)"
  shows "dedupeStoredTasks cfg ts = map (storedTask cfg) ts"
  using foldl_dedupeStoredTasks[OF assms, of "[]" cfg]
  by (simp add: dedupeStoredTasks_def comp_def)

lemma storedTask_ids [simp]:
  "t_id (storedTask cfg t) = t_id t" "t_machine_id (storedTask cfg t) = t_machine_id t"
  by (simp_all add: storedTask_def)

lemma foldl_dedupeMachines:
  "\<forall>m\<in>set ms. m_id m \<noteq> [] \<Longrightarrow>
   distinct (map machineKey ms) \<Longrightarrow>
   \<forall>m\<in>set ms. machineKey m \<notin> fst ` set acc \<Longrightarrow>
   foldl (dedupeMachines_step now) acc ms =
     acc @ map (\<lambda>m. (machineKey m, storedMachine now m)) ms"
proof (induction ms arbitrary: acc)
  case Nil
  show ?case by simp
next
  case (Cons m ms)
  from Cons.prems(3) have fresh: "machineKey m \<notin> fst ` set acc" by simp
  from Cons.prems(1) have ids: "m_id m \<noteq> []" by simp
  have step: "dedupeMachines_step now acc m = acc @ [(machineKey m, storedMachine now m)]"
    using ids map_of_fresh[OF fresh] map_set_fresh[OF fresh]
    by (simp add: dedupeMachines_step_def Let_def storedMachine_def machineKey_def)
  have "foldl (dedupeMachines_step now) (acc @ [(machineKey m, storedMachine now m)]) ms =
        (acc @ [(machineKey m, storedMachine now m)]) @
          map (\<lambda>m. (machineKey m, storedMachine now m)) ms"
  proof (rule Cons.IH)
    show "\<forall>m\<in>set ms. m_id m \<noteq> []" using Cons.prems(1) by simp
    show "distinct (map machineKey ms)" using Cons.prems(2) by simp
    show "\<forall>u\<in>set ms. machineKey u \<notin> fst ` set (acc @ [(machineKey m, storedMachine now m)])"
      using Cons.prems(2,3) by (fastforce simp: image_iff)
  qed
  with step show ?case by simp
qed

lemma dedupeMachines_distinct:
  assumes "\<forall>m\<in>set ms. m_id m \<noteq> []" and "distinct (map machineKey ms)"
  shows "dedupeMachines now ms = map (storedMachine now) ms"
  using foldl_dedupeMachines[OF assms, of "[]" now]
  by (simp add: dedupeMachines_def comp_def)

lemma storedMachine_fields [simp]:
  "m_id (storedMachine now m) = m_id m"
  "m_name (storedMachine now m) = normalizeAgentName (m_name m) (m_id m)"
  "m_fingerprint (storedMachine now m) = normalizeMachineFingerprint (m_fingerprint m) (m_id m)"
  "m_display_name (storedMachine now m) = normalizeDisplayName (m_display_name m)"
  by (simp_all add: storedMachine_def)


subsection \<open>The task loop on tasks that are new to the card\<close>

lemma machines_upsertTask [simp]: "machines (upsertTask cfg now cid gs d t) = machines d"
  by (simp add: upsertTask_def Let_def split: option.splits)

lemma upsertTask_new_entry:
  assumes "rt_id t \<noteq> []"
    and "findIndex (\<lambda>tt. t_id tt = rt_id t \<and> t_machine_id tt = cid) (tasks d) = None"
  shows "map (\<lambda>t. (t_machine_id t, t_id t)) (tasks (upsertTask cfg now cid gs d t)) =
         map (\<lambda>t. (t_machine_id t, t_id t)) (tasks d) @ [(cid, rt_id t)]"
  using assms by (simp add: upsertTask_def Let_def)

lemma upsertTask_all_new:
  "distinct (map rt_id ts) \<Longrightarrow> \<forall>t\<in>set ts. rt_id t \<noteq> [] \<Longrightarrow>
   \<forall>tt\<in>set (tasks d). t_machine_id tt = cid \<longrightarrow> t_id tt \<notin> rt_id ` set ts \<Longrightarrow>
   machines (foldl (upsertTask cfg now cid gs) d ts) = machines d \<and>
   map (\<lambda>t. (t_machine_id t, t_id t)) (tasks (foldl (upsertTask cfg now cid gs) d ts)) =
     map (\<lambda>t. (t_machine_id t, t_id t)) (tasks d) @ map (\<lambda>t. (cid, rt_id t)) ts"
proof (induction ts arbitrary: d)
  case Nil
  show ?case by simp
next
  case (Cons t ts)
  let ?d = "upsertTask cfg now cid gs d t"
  from Cons.prems(2) have id: "rt_id t \<noteq> []" by simp
  have none: "findIndex (\<lambda>tt. t_id tt = rt_id t \<and> t_machine_id tt = cid) (tasks d) = None"
    unfolding findIndex_None using Cons.prems(3) by auto
  note entry = upsertTask_new_entry[OF id none, of cfg now gs]
  have keys: "set (map (\<lambda>t. (t_machine_id t, t_id t)) (tasks ?d)) =
              set (map (\<lambda>t. (t_machine_id t, t_id t)) (tasks d)) \<union> {(cid, rt_id t)}"
    unfolding entry by simp
  have ih: "machines (foldl (upsertTask cfg now cid gs) ?d ts) = machines ?d \<and>
        map (\<lambda>t. (t_machine_id t, t_id t)) (tasks (foldl (upsertTask cfg now cid gs) ?d ts)) =
          map (\<lambda>t. (t_machine_id t, t_id t)) (tasks ?d) @ map (\<lambda>t. (cid, rt_id t)) ts"
  proof (rule Cons.IH)
    show "distinct (map rt_id ts)" using Cons.prems(1) by simp
    show "\<forall>t\<in>set ts. rt_id t \<noteq> []" using Cons.prems(2) by simp
    show "\<forall>tt\<in>set (tasks ?d). t_machine_id tt = cid \<longrightarrow> t_id tt \<notin> rt_id ` set ts"
    proof (intro ballI impI)
      fix tt assume tt: "tt \<in> set (tasks ?d)" and c: "t_machine_id tt = cid"
      from tt have "(t_machine_id tt, t_id tt) \<in> set (map (\<lambda>t. (t_machine_id t, t_id t)) (tasks ?d))"
        by force
      with keys have "(t_machine_id tt, t_id tt) \<in> set (map (\<lambda>t. (t_machine_id t, t_id t)) (tasks d)) \<or>
          t_id tt = rt_id t" by auto
      then show "t_id tt \<notin> rt_id ` set ts"
      proof
        assume "(t_machine_id tt, t_id tt) \<in> set (map (\<lambda>t. (t_machine_id t, t_id t)) (tasks d))"
        then obtain u where u: "u \<in> set (tasks d)" "t_machine_id u = t_machine_id tt" "t_id u = t_id tt"
          by auto
        with c Cons.prems(3) show ?thesis by auto
      next
        assume "t_id tt = rt_id t"
        with Cons.prems(1) show ?thesis by auto
      qed
    qed
  qed
  with entry show ?case by simp
qed


subsection \<open>A source group without a matching card\<close>

lemma findMachine_other_names:
  assumes "\<forall>m\<in>set (machines d). normalizeAgentName (m_name m) (m_id m) \<noteq>
             normalizeAgentName sname smid"
  shows "findMachine d smid fp sname = None"
  unfolding findMachine_def Let_def findIndex_None using assms by simp

lemma upsertMachine_fresh:
  assumes "findMachine d smid fp sname = None"
    and "trim smid = smid" and "smid \<noteq> []"
    and "\<forall>m\<in>set (machines d). m_id m \<noteq> smid"
  shows "upsertMachine cfg now mid fp smid sname d =
           (d\<lparr>machines := machines d @ [freshCard now mid fp smid sname]\<rparr>, length (machines d))"
proof -
  have "List.find (\<lambda>item. m_id item = smid) (machines d) = None"
    using assms(4) by (simp add: find_None_iff)
  then have "pickMachineRecordId d smid fp sname now = smid"
    using assms(2,3) by (simp add: pickMachineRecordId_def Let_def)
  then show ?thesis
    using assms(1,3) by (simp add: upsertMachine_def Let_def or_str_def freshCard_def)
qed

lemma mergeMachineRecords_no_duplicates:
  assumes "ci < length (machines d)"
    and "\<forall>m\<in>set (machines d). m_id m = m_id (machines d ! ci) \<or>
           normalizeAgentName (m_name m) (m_id m) \<noteq>
             normalizeAgentName (m_name (machines d ! ci)) (m_id (machines d ! ci))"
  shows "mergeMachineRecords cfg d ci = d"
proof -
  have "filter
          (\<lambda>m. if m_id m = [] then False
               else if m_id m = m_id (machines d ! ci) then False
               else normalizeMachineFingerprint (m_fingerprint m) (m_id m) =
                      normalizeMachineFingerprint (m_fingerprint (machines d ! ci))
                        (m_id (machines d ! ci)) \<and>
                    normalizeAgentName (m_name m) (m_id m) =
                      normalizeAgentName (m_name (machines d ! ci)) (m_id (machines d ! ci)))
          (machines d) = []"
    unfolding filter_empty_conv using assms(2) by auto
  then show ?thesis
    using assms(1) by (simp add: mergeMachineRecords_def Let_def)
qed

lemma freshCard_fields [simp]:
  "m_id (freshCard now mid fp smid sname) = smid"
  "m_name (freshCard now mid fp smid sname) = sname"
  "m_fingerprint (freshCard now mid fp smid sname) = fp"
  "m_display_name (freshCard now mid fp smid sname) = []"
  by (simp_all add: freshCard_def)

lemma reportGroup_fresh:
  assumes src: "normalizeSourceToken (normalizeTaskSource (g_source grp)) \<noteq> []"
    and smid: "smid = mid @ ''::'' @ normalizeSourceToken (normalizeTaskSource (g_source grp))"
    and sname: "sname = composeMachineAgentName machineName (normalizeTaskSource (g_source grp))"
    and name_fixed: "\<And>x. normalizeAgentName sname x = sname"
    and trimmed: "trim smid = smid"
    and cards: "\<forall>m\<in>set (machines d). m_id m \<noteq> smid \<and>
                  normalizeAgentName (m_name m) (m_id m) \<noteq> sname"
    and stored: "\<forall>tt\<in>set (tasks d). t_machine_id tt \<noteq> smid"
    and ids: "distinct (map rt_id (g_tasks grp))" "\<forall>t\<in>set (g_tasks grp). rt_id t \<noteq> []"
  shows "snd (reportGroup cfg now mid machineName fp (d, prev) grp) = smid \<and>
         machines (fst (reportGroup cfg now mid machineName fp (d, prev) grp)) =
           machines d @ [freshCard now mid fp smid sname] \<and>
         map (\<lambda>t. (t_machine_id t, t_id t))
             (tasks (fst (reportGroup cfg now mid machineName fp (d, prev) grp))) =
           map (\<lambda>t. (t_machine_id t, t_id t)) (tasks d) @
           map (\<lambda>t. (smid, rt_id t)) (g_tasks grp)"
proof -
  let ?gs = "normalizeTaskSource (g_source grp)"
  let ?d1 = "d\<lparr>machines := machines d @ [freshCard now mid fp smid sname]\<rparr>"
  have ne: "smid \<noteq> []" using smid by simp
  have fm: "findMachine d smid fp sname = None"
    by (rule findMachine_other_names) (use cards name_fixed in simp)
  have up: "upsertMachine cfg now mid fp smid sname d = (?d1, length (machines d))"
    by (rule upsertMachine_fresh[OF fm trimmed ne]) (use cards in simp)
  have nth: "machines ?d1 ! length (machines d) = freshCard now mid fp smid sname"
    by simp
  have mg: "mergeMachineRecords cfg ?d1 (length (machines d)) = ?d1"
  proof (rule mergeMachineRecords_no_duplicates)
    show "length (machines d) < length (machines ?d1)" by simp
    show "\<forall>m\<in>set (machines ?d1). m_id m = m_id (machines ?d1 ! length (machines d)) \<or>
           normalizeAgentName (m_name m) (m_id m) \<noteq>
             normalizeAgentName (m_name (machines ?d1 ! length (machines d)))
               (m_id (machines ?d1 ! length (machines d)))"
      unfolding nth using cards name_fixed by auto
  qed
  have loop: "machines (foldl (upsertTask cfg now smid ?gs) ?d1 (g_tasks grp)) = machines ?d1 \<and>
      map (\<lambda>t. (t_machine_id t, t_id t))
        (tasks (foldl (upsertTask cfg now smid ?gs) ?d1 (g_tasks grp))) =
      map (\<lambda>t. (t_machine_id t, t_id t)) (tasks ?d1) @ map (\<lambda>t. (smid, rt_id t)) (g_tasks grp)"
    by (rule upsertTask_all_new[OF ids]) (use stored in simp)
  have rg: "reportGroup cfg now mid machineName fp (d, prev) grp =
      (foldl (upsertTask cfg now smid ?gs) ?d1 (g_tasks grp), smid)"
    using src smid[symmetric] sname[symmetric]
    by (simp add: reportGroup_def Let_def up mg)
  show ?thesis
    unfolding rg using loop by simp
qed


subsection \<open>Groups hold tasks with ids\<close>

lemma map_entry_upd_subset:
  "set (map_entry_upd k f kvs) \<subseteq> set kvs \<union> (\<lambda>(a, v). (a, f v)) ` set kvs"
proof (induction kvs)
  case Nil
  show ?case by simp
next
  case (Cons kv kvs)
  obtain a v where kv: "kv = (a, v)" by (cases kv)
  show ?case
  proof (cases "a = k")
    case True
    with kv show ?thesis by auto
  next
    case False
    with kv Cons.IH show ?thesis by auto
  qed
qed

lemma map_entry_upd_set:
  "(k', g) \<in> set (map_entry_upd k f kvs) \<Longrightarrow>
   (k', g) \<in> set kvs \<or> (\<exists>v. (k', v) \<in> set kvs \<and> g = f v)"
  using map_entry_upd_subset[of k f kvs] by auto

lemma split_step_ids:
  assumes "\<forall>(k, g)\<in>set groups. \<forall>t\<in>set (g_tasks g). rt_id t \<noteq> []"
  shows "\<forall>(k, g)\<in>set (splitTasksBySource_step groups t). \<forall>u\<in>set (g_tasks g). rt_id u \<noteq> []"
proof (cases "rt_id t = []")
  case True
  with assms show ?thesis by (simp add: splitTasksBySource_step_def)
next
  case False
  let ?source = "normalizeTaskSource (or_str (rt_source t) (rt_metadata_source t))"
  let ?key = "if ?source \<noteq> [] then toLowerCase ?source else ''__default__''"
  let ?groups1 = "if map_of groups ?key = None
                  then groups @ [(?key, \<lparr>g_source = ?source, g_tasks = []\<rparr>)] else groups"
  let ?f = "\<lambda>g. g\<lparr>g_tasks := g_tasks g @ [t\<lparr>rt_source := ?source\<rparr>]\<rparr>"
  have g1: "\<forall>(k, g)\<in>set ?groups1. \<forall>u\<in>set (g_tasks g). rt_id u \<noteq> []"
    using assms by auto
  have step: "splitTasksBySource_step groups t = map_entry_upd ?key ?f ?groups1"
    using False by (simp add: splitTasksBySource_step_def Let_def)
  show ?thesis
    unfolding step
  proof (intro ballI, clarify)
    fix k g u
    assume kg: "(k, g) \<in> set (map_entry_upd ?key ?f ?groups1)" and u: "u \<in> set (g_tasks g)"
      and e: "rt_id u = []"
    from map_entry_upd_set[OF kg]
    show False
    proof
      assume "(k, g) \<in> set ?groups1"
      with g1 u e show False by blast
    next
      assume "\<exists>v. (k, v) \<in> set ?groups1 \<and> g = ?f v"
      then obtain v where v: "(k, v) \<in> set ?groups1" "g = ?f v" by blast
      with u have "u \<in> set (g_tasks v) \<or> u = t\<lparr>rt_source := ?source\<rparr>" by auto
      with g1 v(1) e False show False by auto
    qed
  qed
qed

lemma split_fold_ids:
  "\<forall>(k, g)\<in>set groups. \<forall>t\<in>set (g_tasks g). rt_id t \<noteq> [] \<Longrightarrow>
   \<forall>(k, g)\<in>set (foldl splitTasksBySource_step groups ts). \<forall>t\<in>set (g_tasks g). rt_id t \<noteq> []"
proof (induction ts arbitrary: groups)
  case Nil
  then show ?case by simp
next
  case (Cons t ts)
  from Cons.IH[OF split_step_ids[OF Cons.prems, of t]] show ?case by simp
qed

lemma split_ids:
  assumes "g \<in> set (splitTasksBySource ts)" "t \<in> set (g_tasks g)"
  shows "rt_id t \<noteq> []"
proof -
  from assms(1) obtain k where "(k, g) \<in> set (foldl splitTasksBySource_step [] ts)"
    by (auto simp: splitTasksBySource_def)
  with split_fold_ids[of "[]" ts] assms(2) show ?thesis by auto
qed


subsection \<open>Further facts about names, keys and counts\<close>

lemma normalizeMachineFingerprint_same [simp]:
  "normalizeMachineFingerprint (normalizeMachineFingerprint v f) f = normalizeMachineFingerprint v f"
proof (cases "normalizeMachineFingerprint v f = []")
  case True
  then have "trim f = []" by (simp add: normalizeMachineFingerprint_def Let_def split: if_splits)
  with True show ?thesis by (simp add: normalizeMachineFingerprint_def[of "[]"] Let_def)
next
  case False
  then show ?thesis by (rule normalizeMachineFingerprint_idem)
qed

lemma machineKey_storedMachine [simp]: "machineKey (storedMachine now m) = machineKey m"
  by (simp add: machineKey_def)

lemma loadDB_empty [simp]: "loadDB cfg now empty_db = empty_db"
  by (simp add: loadDB_def ensureDBShape_def empty_db_def dedupeMachines_def
      dedupeStoredTasks_def)

lemma source_name:
  assumes N: "N = normalizeAgentName v f" and s: "s = normalizeTaskSource x" "s \<noteq> []"
    and low: "toLowerCase N \<noteq> toLowerCase s"
  shows "composeMachineAgentName N s = N @ middle_dot @ s"
    and "normalizeAgentName (N @ middle_dot @ s) y = N @ middle_dot @ s"
proof -
  show "composeMachineAgentName N s = N @ middle_dot @ s"
    using s low by (simp add: composeMachineAgentName_def Let_def N)
  have Nne: "N \<noteq> []" and Ntr: "trim N = N"
    using normalizeAgentName_trimmed[of v f] N by simp_all
  have str: "trim s = s" using normalizeTaskSource_trimmed[of x] s(1) by simp
  have "trim (N @ middle_dot @ s) = N @ middle_dot @ s"
  proof (rule trim_keep)
    show "N @ middle_dot @ s \<noteq> []" using Nne by simp
    show "\<not> js_whitespace (hd (N @ middle_dot @ s))"
      using Nne trimmed_fixed[OF Ntr Nne] by simp
    show "\<not> js_whitespace (last (N @ middle_dot @ s))"
      using s(2) trimmed_fixed[OF str s(2)] by simp
  qed
  then show "normalizeAgentName (N @ middle_dot @ s) y = N @ middle_dot @ s"
    using Nne by (simp add: normalizeAgentName_def Let_def)
qed

lemma composeMachineTitle_plain:
  "normalizeAgentName n [] = n \<Longrightarrow> composeMachineTitle [] n = n"
  by (simp add: composeMachineTitle_def normalizeDisplayName_def or_str_def Let_def)

lemma dashboardRow_more [simp]:
  "row_agent_name (dashboardRow cfg nowMs ts m) = m_name m"
  "row_display_title (dashboardRow cfg nowMs ts m) = composeMachineTitle (m_display_name m) (m_name m)"
  "row_total_tasks (dashboardRow cfg nowMs ts m) = length (filter (\<lambda>t. t_machine_id t = m_id m) ts)"
  by (simp_all add: dashboardRow_def Let_def)

lemma count_by_keys:
  assumes "map (\<lambda>t. (t_machine_id t, t_id t)) ts =
           map (\<lambda>t. (c1, rt_id t)) a @ map (\<lambda>t. (c2, rt_id t)) b" and "c1 \<noteq> c2"
  shows "length (filter (\<lambda>t. t_machine_id t = c1) ts) = length a"
    and "length (filter (\<lambda>t. t_machine_id t = c2) ts) = length b"
proof -
  have count: "length (filter (\<lambda>t. t_machine_id t = c) ts) =
      length (filter (\<lambda>k. fst k = c) (map (\<lambda>t. (t_machine_id t, t_id t)) ts))" for c
    by (simp add: filter_map comp_def)
  show "length (filter (\<lambda>t. t_machine_id t = c1) ts) = length a"
    unfolding count assms(1) using assms(2) by (simp add: filter_map comp_def)
  show "length (filter (\<lambda>t. t_machine_id t = c2) ts) = length b"
    unfolding count assms(1) using assms(2) by (simp add: filter_map comp_def)
qed

lemma keys_wellformed:
  assumes keys: "map (\<lambda>t. (t_machine_id t, t_id t)) ts =
           map (\<lambda>t. (mid @ ''::'' @ normalizeSourceToken v, rt_id t)) a @
           map (\<lambda>t. (mid @ ''::'' @ normalizeSourceToken w, rt_id t)) b"
    and tok: "normalizeSourceToken v \<noteq> normalizeSourceToken w"
    and ids: "distinct (map rt_id a)" "distinct (map rt_id b)"
      "\<forall>t\<in>set a. rt_id t \<noteq> []" "\<forall>t\<in>set b. rt_id t \<noteq> []"
  shows "(\<forall>t\<in>set ts. t_id t \<noteq> [] \<and> t_machine_id t \<noteq> []) \<and>
         distinct (map (\<lambda>t. taskKey (t_machine_id t) (t_id t)) ts)"
proof
  show "\<forall>t\<in>set ts. t_id t \<noteq> [] \<and> t_machine_id t \<noteq> []"
  proof
    fix t assume "t \<in> set ts"
    then have "(t_machine_id t, t_id t) \<in> set (map (\<lambda>t. (t_machine_id t, t_id t)) ts)" by force
    then show "t_id t \<noteq> [] \<and> t_machine_id t \<noteq> []"
      unfolding keys using ids(3,4) by auto
  qed
  have "map (\<lambda>t. taskKey (t_machine_id t) (t_id t)) ts =
        map (\<lambda>k. taskKey (fst k) (snd k)) (map (\<lambda>t. (t_machine_id t, t_id t)) ts)"
    by (simp add: comp_def)
  also have "\<dots> = map (\<lambda>t. taskKey (mid @ ''::'' @ normalizeSourceToken v) (rt_id t)) a @
                   map (\<lambda>t. taskKey (mid @ ''::'' @ normalizeSourceToken w) (rt_id t)) b"
    unfolding keys by (simp add: comp_def)
  finally have e: "map (\<lambda>t. taskKey (t_machine_id t) (t_id t)) ts =
      map (\<lambda>t. taskKey (mid @ ''::'' @ normalizeSourceToken v) (rt_id t)) a @
      map (\<lambda>t. taskKey (mid @ ''::'' @ normalizeSourceToken w) (rt_id t)) b" .
  have inj: "inj (taskKey c)" for c
    by (rule injI) (simp add: taskKey_def)
  have da: "distinct (map (\<lambda>t. taskKey (mid @ ''::'' @ normalizeSourceToken v) (rt_id t)) a)"
    using ids(1) distinct_map[of "taskKey (mid @ ''::'' @ normalizeSourceToken v)" "map rt_id a"]
      inj[of "mid @ ''::'' @ normalizeSourceToken v"]
    by (simp add: comp_def inj_on_def)
  have db: "distinct (map (\<lambda>t. taskKey (mid @ ''::'' @ normalizeSourceToken w) (rt_id t)) b)"
    using ids(2) distinct_map[of "taskKey (mid @ ''::'' @ normalizeSourceToken w)" "map rt_id b"]
      inj[of "mid @ ''::'' @ normalizeSourceToken w"]
    by (simp add: comp_def inj_on_def)
  have disj: "taskKey (mid @ ''::'' @ normalizeSourceToken v) x \<noteq>
              taskKey (mid @ ''::'' @ normalizeSourceToken w) y" for x y
    using source_key_distinct[of mid v x w y] tok by (auto simp: taskKey_def)
  show "distinct (map (\<lambda>t. taskKey (t_machine_id t) (t_id t)) ts)"
    unfolding e using da db disj by auto
qed

section \<open>Reports of one source-less group\<close>





lemma normalizeTaskSource_Nil [simp]: "normalizeTaskSource [] = []"
  by (simp add: normalizeTaskSource_def)

lemma normalizeSourceToken_Nil [simp]: "normalizeSourceToken [] = []"
  by (simp add: normalizeSourceToken_def)









lemma normalizeMachineFingerprint_nonempty:
  "trim mid \<noteq> [] \<Longrightarrow> normalizeMachineFingerprint v mid \<noteq> []"
  by (simp add: normalizeMachineFingerprint_def Let_def)

lemma machineId_fingerprint:
  assumes "mid \<noteq> []" "trim mid = mid"
  shows "normalizeMachineFingerprint (normalizeMachineFingerprint v mid) g =
         normalizeMachineFingerprint v mid"
  by (rule normalizeMachineFingerprint_idem)
     (use assms in \<open>simp add: normalizeMachineFingerprint_nonempty\<close>)

lemma newTask_keys [simp]:
  "t_id (newTask cfg now cid gs t) = rt_id t" "t_machine_id (newTask cfg now cid gs t) = cid"
  by (simp_all add: newTask_def Let_def)









section \<open>Reports for a stored card\<close>



lemma seenCard_fields [simp]:
  "m_id (seenCard cfg now mid fp smid sname mc) = m_id mc"
  "m_name (seenCard cfg now mid fp smid sname mc) = sname"
  "m_fingerprint (seenCard cfg now mid fp smid sname mc) = fp"
  "m_display_name (seenCard cfg now mid fp smid sname mc) = m_display_name mc"
  by (simp_all add: seenCard_def)



lemma updatedTask_keys [simp]:
  "t_id (updatedTask cfg now cid gs e t) = rt_id t"
  "t_machine_id (updatedTask cfg now cid gs e t) = cid"
  by (simp_all add: updatedTask_def Let_def)




section \<open>Validation of a report\<close>

lemma json_task_fields [simp]:
  "t_id (json_task t) = t_id t" "t_machine_id (json_task t) = t_machine_id t"
  "t_created_at (json_task t) = t_created_at t" "t_updated_at (json_task t) = t_updated_at t"
  "t_status (json_task t) = json_status (t_status t)"
  by (simp_all add: json_task_def)

lemma json_event_fields [simp]:
  "h_event (json_event e) = h_event e" "h_machine_id (json_event e) = h_machine_id e"
  "h_task_id (json_event e) = h_task_id e"
  "h_from_status (json_event e) = map_option json_status (h_from_status e)"
  "h_to_status (json_event e) = json_status (h_to_status e)"
  by (simp_all add: json_event_def)

lemma storedTask_times [simp]:
  "t_created_at (storedTask cfg t) = t_created_at t"
  "t_updated_at (storedTask cfg t) = t_updated_at t"
  "t_status (storedTask cfg t) = t_status t"
  by (simp_all add: storedTask_def)

lemma createdEvent_fields [simp]:
  "h_event (createdEvent now cid t) = ''created''" "h_machine_id (createdEvent now cid t) = cid"
  "h_task_id (createdEvent now cid t) = rt_id t" "h_from_status (createdEvent now cid t) = None"
  "h_to_status (createdEvent now cid t) = normalizeTaskStatus (Text (rt_status t))"
  by (simp_all add: createdEvent_def)






section \<open>Creation time of a task\<close>

lemma newTask_times [simp]:
  "t_created_at (newTask cfg now cid gs t) =
     or_stamp (resolveCreatedAt None (normalizeTimestamp (rt_created_at t))
                 (normalizeTimestamp (rt_updated_at t)) (Stamp now)) (Stamp now)"
  "t_updated_at (newTask cfg now cid gs t) =
     resolveUpdatedAt None (normalizeTimestamp (rt_updated_at t))
       (resolveCreatedAt None (normalizeTimestamp (rt_created_at t))
          (normalizeTimestamp (rt_updated_at t)) (Stamp now)) (Stamp now)"
  "t_status (newTask cfg now cid gs t) = normalizeTaskStatus (Text (rt_status t))"
  by (simp_all add: newTask_def Let_def)

lemma updatedTask_times [simp]:
  "t_created_at (updatedTask cfg now cid gs e t) =
     resolveCreatedAt (Some e) (normalizeTimestamp (rt_created_at t))
       (normalizeTimestamp (rt_updated_at t)) (Stamp now)"
  "t_updated_at (updatedTask cfg now cid gs e t) =
     resolveUpdatedAt (Some e) (normalizeTimestamp (rt_updated_at t))
       (resolveCreatedAt (Some e) (normalizeTimestamp (rt_created_at t))
          (normalizeTimestamp (rt_updated_at t)) (Stamp now)) (Stamp now)"
  "t_status (updatedTask cfg now cid gs e t) = normalizeTaskStatus (Text (rt_status t))"
  by (simp_all add: updatedTask_def Let_def)


lemma normalizeTimestamp_Stamp [simp]: "normalizeTimestamp (Stamp s) = Stamp s"
  by (simp add: normalizeTimestamp_def Date_parse_def)










section \<open>History of status transitions\<close>

lemma json_status_Text [simp]: "json_status (Text s) = Text s"
  by (simp add: json_status_def)

lemma json_status_idem [simp]: "json_status (json_status v) = json_status v"
  by (cases v) (simp_all add: json_status_def)

lemma json_event_idem [simp]: "json_event (json_event e) = json_event e"
  by (simp add: json_event_def option.map_comp comp_def)

lemma trim_statuses [simp]:
  "trim ''in_progress'' = ''in_progress''" "trim ''verified'' = ''verified''"
  "trim ''awaiting_verification'' = ''awaiting_verification''"
  by (simp_all add: trim_def js_whitespace_def)


lemma normalizeTaskStatus_results [simp]:
  "normalizeTaskStatus (Text ''in_progress'') = Text ''in_progress''"
  "normalizeTaskStatus (Text ''verified'') = Text ''verified''"
  "normalizeTaskStatus (Text ''awaiting_verification'') = Text ''awaiting_verification''"
  by (simp_all add: normalizeTaskStatus_def status_text_def status_alias_def or_str_def
      inherited_members_def)



lemma changedEvent_fields [simp]:
  "h_event (changedEvent now cid e t) = ''status_changed''"
  "h_machine_id (changedEvent now cid e t) = cid"
  "h_task_id (changedEvent now cid e t) = rt_id t"
  "h_from_status (changedEvent now cid e t) = Some (normalizeTaskStatus (t_status e))"
  "h_to_status (changedEvent now cid e t) = normalizeTaskStatus (Text (rt_status t))"
  by (simp_all add: changedEvent_def)










section \<open>History query\<close>

lemma historyLimit_range: "1 \<le> historyLimit rawLimit \<and> historyLimit rawLimit \<le> 500"
  by (cases rawLimit) (simp_all add: historyLimit_def)

lemma history_loadDB [simp]: "history (loadDB cfg now store) = history store"
  by (simp add: loadDB_def ensureDBShape_def)

lemma slice_start:
  assumes "1 \<le> l"
  shows "nat (max (int n + \<lceil>- l\<rceil>) 0) = n - nat \<lfloor>l :: rat\<rfloor>"
proof -
  have "\<lceil>- l\<rceil> = - \<lfloor>l\<rfloor>" by (simp add: ceiling_minus)
  moreover from assms have "1 \<le> \<lfloor>l\<rfloor>" by simp
  ultimately show ?thesis by (simp add: max_def) linarith
qed

lemma getHistory_page:
  "getHistory cfg nowMs store machineId taskId rawLimit =
     \<lparr>total =
        length (filter (\<lambda>e. (machineId = [] \<or> h_machine_id e = machineId) \<and>
                            (taskId = [] \<or> h_task_id e = taskId)) (history store)),
      items =
        rev (slice_last (nat \<lfloor>historyLimit rawLimit\<rfloor>)
          (filter (\<lambda>e. (machineId = [] \<or> h_machine_id e = machineId) \<and>
                       (taskId = [] \<or> h_task_id e = taskId)) (history store)))\<rparr>"
proof -
  have f: "(if taskId \<noteq> [] then filter (\<lambda>item. h_task_id item = taskId)
              (if machineId \<noteq> [] then filter (\<lambda>item. h_machine_id item = machineId) (history store)
               else history store)
            else (if machineId \<noteq> [] then filter (\<lambda>item. h_machine_id item = machineId) (history store)
               else history store)) =
        filter (\<lambda>e. (machineId = [] \<or> h_machine_id e = machineId) \<and>
                     (taskId = [] \<or> h_task_id e = taskId)) (history store)"
    by (auto intro: filter_cong)
  show ?thesis
    unfolding getHistory_def Let_def history_loadDB f
    using historyLimit_range[of rawLimit]
    by (simp add: slice_start slice_last_def)
qed

text \<open>
  Claim C10, as the source has it. The effective limit lies in \<open>[1, 500]\<close>; it is 50 when
  \<^verbatim>\<open>Number(req.query.limit)\<close> is \<open>NaN\<close> (a missing or non-numeric parameter) or an
  infinity, and the clamped number otherwise. \<open>total\<close> counts the matching events, and
  \<open>items\<close> holds the last \<open>min \<lfloor>limit\<rfloor> total\<close> of them, newest first: a fractional limit
  is truncated by \<^verbatim>\<open>slice\<close>.
\<close>

theorem history_query:
  "1 \<le> historyLimit rawLimit \<and> historyLimit rawLimit \<le> 500 \<and>
   historyLimit NaN = 50 \<and> historyLimit PosInfinity = 50 \<and> historyLimit NegInfinity = 50 \<and>
   (\<forall>r. rawLimit = Finite r \<longrightarrow> historyLimit rawLimit = min (max r 1) 500) \<and>
   total (getHistory cfg nowMs store machineId taskId rawLimit) =
     length (filter (\<lambda>e. (machineId = [] \<or> h_machine_id e = machineId) \<and>
                         (taskId = [] \<or> h_task_id e = taskId)) (history store)) \<and>
   items (getHistory cfg nowMs store machineId taskId rawLimit) =
     rev (slice_last (nat \<lfloor>historyLimit rawLimit\<rfloor>)
       (filter (\<lambda>e. (machineId = [] \<or> h_machine_id e = machineId) \<and>
                    (taskId = [] \<or> h_task_id e = taskId)) (history store))) \<and>
   length (items (getHistory cfg nowMs store machineId taskId rawLimit)) =
     min (nat \<lfloor>historyLimit rawLimit\<rfloor>)
       (total (getHistory cfg nowMs store machineId taskId rawLimit))"
  using historyLimit_range[of rawLimit]
  by (auto simp: getHistory_page slice_last_def historyLimit_def)

theorem history_query_witness:
  "historyLimit (Finite 2) = 2 \<and>
   total (getHistory default_config 0 three_events ''m'' [] (Finite 2)) = 2 \<and>
   items (getHistory default_config 0 three_events [] [] (Finite 2)) =
     [ledger_event ''e3'' ''n'' ''a'', ledger_event ''e2'' ''m'' ''b'']"
  using history_query[of "Finite 2" default_config 0 three_events "''m''" "[]"]
    history_query[of "Finite 2" default_config 0 three_events "[]" "[]"]
  by (simp add: three_events_def ledger_event_def slice_last_def)

text \<open>With \<^verbatim>\<open>limit=2.5\<close> and three events the page holds two items, which is not
  \<open>min limit total\<close>.\<close>

theorem history_query_counterexample:
  "historyLimit (Finite (5 / 2)) = 5 / 2 \<and>
   total (getHistory default_config 0 three_events [] [] (Finite (5 / 2))) = 3 \<and>
   length (items (getHistory default_config 0 three_events [] [] (Finite (5 / 2)))) = 2 \<and>
   rat_of_nat (length (items (getHistory default_config 0 three_events [] [] (Finite (5 / 2)))))
     \<noteq> min (historyLimit (Finite (5 / 2)))
           (rat_of_nat (total (getHistory default_config 0 three_events [] [] (Finite (5 / 2)))))"
proof -
  have l: "historyLimit (Finite (5 / 2)) = 5 / 2"
    by (simp add: historyLimit_def)
  have fl: "\<lfloor>5 / 2 :: rat\<rfloor> = 2"
    by (simp add: floor_eq_iff)
  show ?thesis
    by (simp add: getHistory_page l fl three_events_def slice_last_def)
qed

section \<open>Detail of a card\<close>

text \<open>
  Claim C9 at a concrete input. A card reports one task as \<open>in_progress\<close> at time 5000 and
  its detail is read at time 100000, when the card is offline. The answer lists the stored
  task record as it is: its fields are those of \<open>task\<close>, with the status
  \<open>in_progress\<close>, and there is no separate raw status. An unknown id is answered with
  404.
\<close>

theorem machine_detail_response:
  "getMachineDetail default_config 100000
     (snd (postReport default_config 5000 empty_db
        (timed_report ''in_progress'' (Stamp 1000) (Stamp 2000)))) ''m'' =
   Ok200
     \<lparr>detail_row =
        \<lparr>row_id = ''m'', row_agent_name = ''m'', row_display_name = [],
         row_display_title = ''m'', row_last_seen = Stamp 5000,
         row_presence =
           \<lparr>agent_status = ''offline'', status_since = Stamp 50000,
            online_since = Stamp 5000, offline_since = Stamp 50000\<rparr>,
         row_counts = \<lparr>in_progress = 1, awaiting_verification = 0, verified = 0\<rparr>,
         row_total_tasks = 1\<rparr>,
      detail_tasks =
        [\<lparr>t_id = ''t'', t_machine_id = ''m'', t_title = ''Untitled Task'',
          t_status = Text ''in_progress'', t_created_at = Stamp 1000, t_updated_at = Stamp 2000,
          t_source = [], t_preview_images = []\<rparr>],
      detail_recent_history =
        [\<lparr>h_id = ''m:t:5000'', h_event = ''created'', h_machine_id = ''m'', h_task_id = ''t'',
          h_title = ''Untitled Task'', h_from_status = None, h_to_status = Text ''in_progress'',
          h_changed_at = Stamp 5000\<rparr>]\<rparr> \<and>
   getMachineDetail default_config 100000
     (snd (postReport default_config 5000 empty_db
        (timed_report ''in_progress'' (Stamp 1000) (Stamp 2000)))) ''x'' =
   NotFound ''machine not found''"
  unfolding timed_first_report by code_simp

section \<open>One card per identity\<close>

lemma blank_id_first_report:
  "snd (postReport default_config 1 empty_db (card_report ''a'' '':'' ''b'')) =
     \<lparr>machines = [colon_card], tasks = [], history = []\<rparr>"
  by code_simp

lemma blank_id_second_report:
  "snd (postReport default_config 2 \<lparr>machines = [colon_card], tasks = [], history = []\<rparr>
          (card_report ''c'' ''a'' '':b'')) =
     \<lparr>machines = [colon_card, second_card], tasks = [], history = []\<rparr>"
  by code_simp

lemma blank_id_third_report:
  "snd (postReport default_config 3
          \<lparr>machines = [colon_card, second_card], tasks = [], history = []\<rparr>
          (card_report '' '' [] '':b'')) =
     \<lparr>machines = [overwritten_card, second_card], tasks = [], history = []\<rparr>"
  by code_simp

lemma blank_id_identities:
  "machineIdentity overwritten_card = (''a'', '':b'')"
  "machineIdentity second_card = (''a'', '':b'')"
  by code_simp+

text \<open>
  Claim C1 at a concrete sequence of reports on the empty store. The first report creates
  a card with fingerprint \<open>:\<close> and agent name \<open>b\<close>, the second a card with fingerprint
  \<open>a\<close> and agent name \<open>:b\<close>, and the third comes from a machine whose id is a single
  space, with no fingerprint and the agent name \<open>:b\<close>. After the third report the store
  holds two cards whose normalised (fingerprint, agent name) pair is \<open>(a, :b)\<close>.
\<close>

theorem two_cards_one_identity:
  "map machineIdentity
     (machines (postReports default_config empty_db
        [(1, card_report ''a'' '':'' ''b''), (2, card_report ''c'' ''a'' '':b''),
         (3, card_report '' '' [] '':b'')])) =
   [(''a'', '':b''), (''a'', '':b'')]"
  by (simp add: postReports_def blank_id_first_report blank_id_second_report
      blank_id_third_report blank_id_identities)

section \<open>Order of the summary\<close>

lemma set_sort_insert: "set (sort_insert cmp x ys) = insert x (set ys)"
  by (induction ys) auto

lemma mset_sort_insert: "mset (sort_insert cmp x ys) = add_mset x (mset ys)"
  by (induction ys) auto

lemma mset_js_sort: "mset (js_sort cmp xs) = mset xs"
  by (induction xs) (simp_all add: js_sort_def mset_sort_insert)

lemma set_js_sort: "set (js_sort cmp xs) = set xs"
  by (induction xs) (simp_all add: js_sort_def set_sort_insert)

lemma sorted_sort_insert:
  assumes total: "\<forall>a\<in>S. \<forall>b\<in>S. cmp a b \<le> 0 \<or> cmp b a \<le> 0"
    and trans: "\<forall>a\<in>S. \<forall>b\<in>S. \<forall>c\<in>S. cmp a b \<le> 0 \<longrightarrow> cmp b c \<le> 0 \<longrightarrow> cmp a c \<le> 0"
    and x: "x \<in> S"
  shows "set ys \<subseteq> S \<Longrightarrow> sorted_wrt (\<lambda>a b. cmp a b \<le> 0) ys \<Longrightarrow>
         sorted_wrt (\<lambda>a b. cmp a b \<le> 0) (sort_insert cmp x ys)"
proof (induction ys)
  case Nil
  show ?case by simp
next
  case (Cons y ys)
  from Cons.prems(1) have y: "y \<in> S" and ys: "set ys \<subseteq> S" by simp_all
  from Cons.prems(2) have below: "\<forall>z\<in>set ys. cmp y z \<le> 0"
    and sorted: "sorted_wrt (\<lambda>a b. cmp a b \<le> 0) ys" by simp_all
  show ?case
  proof (cases "cmp x y \<le> 0")
    case True
    have "\<forall>z\<in>set ys. cmp x z \<le> 0"
    proof
      fix z assume z: "z \<in> set ys"
      with below have "cmp y z \<le> 0" by blast
      moreover from z ys have "z \<in> S" by blast
      ultimately show "cmp x z \<le> 0" using trans x y True by blast
    qed
    with True below sorted show ?thesis by simp
  next
    case False
    with total x y have yx: "cmp y x \<le> 0" by blast
    have ih: "sorted_wrt (\<lambda>a b. cmp a b \<le> 0) (sort_insert cmp x ys)"
      by (rule Cons.IH[OF ys sorted])
    have "\<forall>w\<in>set (sort_insert cmp x ys). cmp y w \<le> 0"
      using yx below by (simp add: set_sort_insert)
    with False ih show ?thesis by simp
  qed
qed

lemma sorted_js_sort:
  assumes total: "\<forall>a\<in>S. \<forall>b\<in>S. cmp a b \<le> 0 \<or> cmp b a \<le> 0"
    and trans: "\<forall>a\<in>S. \<forall>b\<in>S. \<forall>c\<in>S. cmp a b \<le> 0 \<longrightarrow> cmp b c \<le> 0 \<longrightarrow> cmp a c \<le> 0"
  shows "set xs \<subseteq> S \<Longrightarrow> sorted_wrt (\<lambda>a b. cmp a b \<le> 0) (js_sort cmp xs)"
proof (induction xs)
  case Nil
  show ?case by (simp add: js_sort_def)
next
  case (Cons x xs)
  from Cons.prems have x: "x \<in> S" and xs: "set xs \<subseteq> S" by simp_all
  have ih: "sorted_wrt (\<lambda>a b. cmp a b \<le> 0) (js_sort cmp xs)"
    by (rule Cons.IH[OF xs])
  have sub: "set (js_sort cmp xs) \<subseteq> S"
    using xs by (simp add: set_js_sort)
  have "sorted_wrt (\<lambda>a b. cmp a b \<le> 0) (sort_insert cmp x (js_sort cmp xs))"
    by (rule sorted_sort_insert[OF total trans x sub ih])
  then show ?case by (simp add: js_sort_def)
qed



lemma Date_parse_Stamp [simp]: "Date_parse (Stamp s) = Some s"
  by (simp add: Date_parse_def)

lemma dashboardRow_fields [simp]:
  "row_presence (dashboardRow cfg nowMs ts m) = resolveMachinePresence cfg m nowMs"
  "row_last_seen (dashboardRow cfg nowMs ts m) = m_last_seen m"
  "row_id (dashboardRow cfg nowMs ts m) = m_id m"
  by (simp_all add: dashboardRow_def Let_def)

lemma presence_cases:
  "(\<exists>ls s. m_last_seen m = Stamp ls \<and> agent_status (resolveMachinePresence cfg m nowMs) = ''online'' \<and>
           status_since (resolveMachinePresence cfg m nowMs) = Stamp s) \<or>
   (\<exists>ls. m_last_seen m = Stamp ls \<and> AGENT_OFFLINE_TIMEOUT_MS cfg < nowMs - ls \<and>
         agent_status (resolveMachinePresence cfg m nowMs) = ''offline'' \<and>
         status_since (resolveMachinePresence cfg m nowMs) =
           Stamp (min (max (ls + AGENT_OFFLINE_TIMEOUT_MS cfg) 0) nowMs)) \<or>
   (Date_parse (m_last_seen m) = None \<and>
    agent_status (resolveMachinePresence cfg m nowMs) = ''offline'' \<and>
    status_since (resolveMachinePresence cfg m nowMs) = Stamp (min (max nowMs 0) nowMs))"
  by (cases "m_last_seen m")
     (simp_all add: resolveMachinePresence_def Date_parse_def Let_def)

lemma rowAt_dashboardRow:
  assumes "0 < nowMs"
  shows "rowAt nowMs (dashboardRow cfg nowMs ts m)"
  using presence_cases[of m cfg nowMs] assms
  unfolding rowAt_def dashboardRow_fields
  by (elim disjE exE conjE) (simp_all, linarith?)


lemma rowAt_since:
  assumes "rowAt nowMs a"
  obtains sa where "status_since (row_presence a) = Stamp sa"
    and "(Date_parse (row_last_seen a) = None) =
           (agent_status (row_presence a) \<noteq> ''online'' \<and> sa = nowMs)"
  using assms by (auto simp: rowAt_def)

lemma compare_is_summaryOrder:
  assumes "rowAt nowMs a" "rowAt nowMs b"
  shows "(compareDashboardMachines localeCompare a b \<le> 0) = summaryOrder localeCompare a b"
proof -
  from assms(1) obtain sa where sa: "status_since (row_presence a) = Stamp sa"
    and la: "(Date_parse (row_last_seen a) = None) =
           (agent_status (row_presence a) \<noteq> ''online'' \<and> sa = nowMs)"
    by (rule rowAt_since)
  from assms(2) obtain sb where sb: "status_since (row_presence b) = Stamp sb"
    and lb: "(Date_parse (row_last_seen b) = None) =
           (agent_status (row_presence b) \<noteq> ''online'' \<and> sb = nowMs)"
    by (rule rowAt_since)
  show ?thesis
    using la lb
    by (cases "Date_parse (row_last_seen a)"; cases "Date_parse (row_last_seen b)")
       (auto simp: compareDashboardMachines_def summaryOrder_def compareMs_def js_gt_def
          sa sb Let_def)
qed

lemma summaryOrder_keys:
  assumes "rowAt nowMs a" "rowAt nowMs b"
  shows "summaryOrder localeCompare a b =
     ((agent_status (row_presence a) = ''online'' \<and> agent_status (row_presence b) \<noteq> ''online'') \<or>
      ((agent_status (row_presence a) = ''online'') = (agent_status (row_presence b) = ''online'') \<and>
       ((case Date_parse (status_since (row_presence b)) of None \<Rightarrow> 0 | Some v \<Rightarrow> v) <
          (case Date_parse (status_since (row_presence a)) of None \<Rightarrow> 0 | Some v \<Rightarrow> v) \<or>
        ((case Date_parse (status_since (row_presence a)) of None \<Rightarrow> 0 | Some v \<Rightarrow> v) =
           (case Date_parse (status_since (row_presence b)) of None \<Rightarrow> 0 | Some v \<Rightarrow> v) \<and>
         ((case Date_parse (row_last_seen b) of None \<Rightarrow> 0 | Some v \<Rightarrow> v) <
            (case Date_parse (row_last_seen a) of None \<Rightarrow> 0 | Some v \<Rightarrow> v) \<or>
          ((case Date_parse (row_last_seen b) of None \<Rightarrow> 0 | Some v \<Rightarrow> v) =
             (case Date_parse (row_last_seen a) of None \<Rightarrow> 0 | Some v \<Rightarrow> v) \<and>
           localeCompare (row_display_title a) (row_display_title b) \<le> 0))))))"
proof -
  from assms(1) obtain sa where sa: "status_since (row_presence a) = Stamp sa"
    and la: "(Date_parse (row_last_seen a) = None) =
           (agent_status (row_presence a) \<noteq> ''online'' \<and> sa = nowMs)"
    by (rule rowAt_since)
  from assms(2) obtain sb where sb: "status_since (row_presence b) = Stamp sb"
    and lb: "(Date_parse (row_last_seen b) = None) =
           (agent_status (row_presence b) \<noteq> ''online'' \<and> sb = nowMs)"
    by (rule rowAt_since)
  show ?thesis
    using la lb
    by (cases "Date_parse (row_last_seen a)"; cases "Date_parse (row_last_seen b)")
       (auto simp: summaryOrder_def js_gt_def sa sb Let_def)
qed

text \<open>The lexicographic order on (bucket, status-since, last-seen, title) is total and
  transitive when the comparison of titles is.\<close>

lemma lex_total:
  fixes sa sb va vb :: int
  assumes "ta \<or> tb"
  shows "((oa \<and> \<not> ob) \<or> (oa = ob \<and> (sb < sa \<or> (sa = sb \<and> (vb < va \<or> (vb = va \<and> ta)))))) \<or>
         ((ob \<and> \<not> oa) \<or> (ob = oa \<and> (sa < sb \<or> (sb = sa \<and> (va < vb \<or> (va = vb \<and> tb))))))"
  using assms by (cases oa; cases ob) (simp_all, linarith+)

lemma lex_trans:
  fixes sa sb sc va vb vc :: int
  assumes "tab \<Longrightarrow> tbc \<Longrightarrow> tac"
    and "(oa \<and> \<not> ob) \<or> (oa = ob \<and> (sb < sa \<or> (sa = sb \<and> (vb < va \<or> (vb = va \<and> tab)))))"
    and "(ob \<and> \<not> oc) \<or> (ob = oc \<and> (sc < sb \<or> (sb = sc \<and> (vc < vb \<or> (vc = vb \<and> tbc)))))"
  shows "(oa \<and> \<not> oc) \<or> (oa = oc \<and> (sc < sa \<or> (sa = sc \<and> (vc < va \<or> (vc = va \<and> tac)))))"
  using assms by (cases oa; cases ob; cases oc) (simp_all, (linarith | blast)+)


lemma summaryOrder_total:
  assumes a: "rowAt nowMs a" and b: "rowAt nowMs b"
    and total: "\<forall>x y. localeCompare x y \<le> 0 \<or> localeCompare y x \<le> 0"
  shows "summaryOrder localeCompare a b \<or> summaryOrder localeCompare b a"
proof -
  from total have "localeCompare (row_display_title a) (row_display_title b) \<le> 0 \<or>
      localeCompare (row_display_title b) (row_display_title a) \<le> 0" by blast
  then show ?thesis
    unfolding summaryOrder_keys[OF a b] summaryOrder_keys[OF b a]
    by (rule lex_total)
qed

lemma summaryOrder_trans:
  assumes a: "rowAt nowMs a" and b: "rowAt nowMs b" and c: "rowAt nowMs c"
    and trans: "\<forall>x y z. localeCompare x y \<le> 0 \<longrightarrow> localeCompare y z \<le> 0 \<longrightarrow>
                  localeCompare x z \<le> 0"
    and ab: "summaryOrder localeCompare a b" and bc: "summaryOrder localeCompare b c"
  shows "summaryOrder localeCompare a c"
proof -
  from trans have t: "localeCompare (row_display_title a) (row_display_title b) \<le> 0 \<Longrightarrow>
      localeCompare (row_display_title b) (row_display_title c) \<le> 0 \<Longrightarrow>
      localeCompare (row_display_title a) (row_display_title c) \<le> 0" by blast
  show ?thesis
    unfolding summaryOrder_keys[OF a c]
    by (rule lex_trans[OF t ab[unfolded summaryOrder_keys[OF a b]]
          bc[unfolded summaryOrder_keys[OF b c]]])
qed

lemma four_cards_order:
  "map row_id (getDashboard default_config localeCompare 100000 four_cards) =
     [''a'', ''b'', ''c'', ''d'']"
  by code_simp

lemma codeUnitCompare_total: "codeUnitCompare x y \<le> 0 \<or> codeUnitCompare y x \<le> 0"
proof (induction x y rule: codeUnitCompare.induct)
  case (4 x xs y ys)
  consider "(of_char x :: nat) < of_char y" | "(of_char y :: nat) < of_char x"
    | "(of_char x :: nat) = of_char y" by linarith
  then show ?case
  proof cases
    case 1
    then show ?thesis by simp
  next
    case 2
    then show ?thesis by simp
  next
    case 3
    with "4.IH" show ?thesis by simp
  qed
qed simp_all

lemma codeUnitCompare_trans:
  "codeUnitCompare x y \<le> 0 \<Longrightarrow> codeUnitCompare y z \<le> 0 \<Longrightarrow> codeUnitCompare x z \<le> 0"
proof (induction x y arbitrary: z rule: codeUnitCompare.induct)
  case 1
  then show ?case by simp
next
  case (2 y ys)
  then show ?case by (cases z) simp_all
next
  case (3 x xs)
  then show ?case by simp
next
  case (4 x xs y ys)
  show ?case
  proof (cases z)
    case Nil
    with "4.prems" show ?thesis by (simp split: if_splits)
  next
    case (Cons c cs)
    from "4.prems"(1) have xy: "(of_char x :: nat) \<le> of_char y"
      by (simp split: if_splits)
    from "4.prems"(2) Cons have yc: "(of_char y :: nat) \<le> of_char c"
      by (simp split: if_splits)
    show ?thesis
    proof (cases "(of_char x :: nat) < of_char c")
      case True
      with Cons show ?thesis by simp
    next
      case False
      with xy yc have e: "(of_char x :: nat) = of_char y" "(of_char y :: nat) = of_char c"
        by linarith+
      from e "4.prems"(1) have 1: "codeUnitCompare xs ys \<le> 0" by simp
      from e "4.prems"(2) Cons have 2: "codeUnitCompare ys cs \<le> 0" by simp
      from "4.IH"[OF _ _ 1 2] e have "codeUnitCompare xs cs \<le> 0" by simp
      with e Cons show ?thesis by simp
    qed
  qed
qed

text \<open>
  Claim C7. \<open>localeCompare\<close> is the collation of the platform, taken as a total and
  transitive comparison, and \<open>nowMs\<close> is a clock reading after the epoch. The summary is
  then the list of the rows of the cards, one per card, rearranged so that every row
  stands before every later row in the order of the specification: online before offline,
  then the later status-since (the offline-since of an offline card), then the later
  last-seen, then the display title. The last conjunct is the scenario of two online and
  two offline cards, \<open>a\<close> online since 90000, \<open>b\<close> online since 80000, \<open>c\<close> offline
  since 75000 and \<open>d\<close> offline since 65000.
\<close>

theorem dashboard_sorted:
  assumes total: "\<forall>x y. localeCompare x y \<le> 0 \<or> localeCompare y x \<le> 0"
    and trans: "\<forall>x y z. localeCompare x y \<le> 0 \<longrightarrow> localeCompare y z \<le> 0 \<longrightarrow>
                  localeCompare x z \<le> 0"
    and now: "0 < nowMs"
  shows "sorted_wrt (summaryOrder localeCompare) (getDashboard cfg localeCompare nowMs store) \<and>
     mset (getDashboard cfg localeCompare nowMs store) =
       mset (map (dashboardRow cfg nowMs (tasks (loadDB cfg nowMs store)))
              (machines (loadDB cfg nowMs store))) \<and>
     map row_id (getDashboard default_config localeCompare 100000 four_cards) =
       [''a'', ''b'', ''c'', ''d'']"
proof -
  let ?rows = "map (dashboardRow cfg nowMs (tasks (loadDB cfg nowMs store)))
                 (machines (loadDB cfg nowMs store))"
  let ?cmp = "compareDashboardMachines localeCompare"
  let ?S = "{r. rowAt nowMs r}"
  have rows: "set ?rows \<subseteq> ?S"
    using rowAt_dashboardRow[OF now] by auto
  have t: "\<forall>a\<in>?S. \<forall>b\<in>?S. ?cmp a b \<le> 0 \<or> ?cmp b a \<le> 0"
  proof (intro ballI)
    fix a b
    assume "a \<in> ?S" "b \<in> ?S"
    then have a: "rowAt nowMs a" and b: "rowAt nowMs b" by simp_all
    show "?cmp a b \<le> 0 \<or> ?cmp b a \<le> 0"
      unfolding compare_is_summaryOrder[OF a b] compare_is_summaryOrder[OF b a]
      by (rule summaryOrder_total[OF a b total])
  qed
  have tr: "\<forall>a\<in>?S. \<forall>b\<in>?S. \<forall>c\<in>?S. ?cmp a b \<le> 0 \<longrightarrow> ?cmp b c \<le> 0 \<longrightarrow> ?cmp a c \<le> 0"
  proof (intro ballI impI)
    fix a b c
    assume "a \<in> ?S" "b \<in> ?S" "c \<in> ?S"
    then have a: "rowAt nowMs a" and b: "rowAt nowMs b" and c: "rowAt nowMs c" by simp_all
    assume "?cmp a b \<le> 0" "?cmp b c \<le> 0"
    then have ab: "summaryOrder localeCompare a b" and bc: "summaryOrder localeCompare b c"
      by (simp_all only: compare_is_summaryOrder[OF a b] compare_is_summaryOrder[OF b c])
    show "?cmp a c \<le> 0"
      unfolding compare_is_summaryOrder[OF a c]
      by (rule summaryOrder_trans[OF a b c trans ab bc])
  qed
  have sorted: "sorted_wrt (\<lambda>a b. ?cmp a b \<le> 0) (js_sort ?cmp ?rows)"
    by (rule sorted_js_sort[OF t tr rows])
  have "sorted_wrt (summaryOrder localeCompare) (js_sort ?cmp ?rows)"
  proof (rule sorted_wrt_mono_rel[OF _ sorted])
    fix a b
    assume "a \<in> set (js_sort ?cmp ?rows)" "b \<in> set (js_sort ?cmp ?rows)"
    with rows have a: "rowAt nowMs a" and b: "rowAt nowMs b"
      unfolding set_js_sort by blast+
    assume "?cmp a b \<le> 0"
    then show "summaryOrder localeCompare a b"
      by (simp only: compare_is_summaryOrder[OF a b])
  qed
  then have "sorted_wrt (summaryOrder localeCompare)
      (getDashboard cfg localeCompare nowMs store)"
    by (simp add: getDashboard_def Let_def)
  moreover have "mset (getDashboard cfg localeCompare nowMs store) = mset ?rows"
    by (simp add: getDashboard_def Let_def mset_js_sort)
  ultimately show ?thesis
    using four_cards_order by blast
qed

theorem dashboard_sorted_witness:
  "sorted_wrt (summaryOrder codeUnitCompare)
     (getDashboard default_config codeUnitCompare 100000 four_cards) \<and>
   map row_id (getDashboard default_config codeUnitCompare 100000 four_cards) =
     [''a'', ''b'', ''c'', ''d'']"
proof -
  have total: "\<forall>x y. codeUnitCompare x y \<le> 0 \<or> codeUnitCompare y x \<le> 0"
    using codeUnitCompare_total by blast
  have trans: "\<forall>x y z. codeUnitCompare x y \<le> 0 \<longrightarrow> codeUnitCompare y z \<le> 0 \<longrightarrow>
                 codeUnitCompare x z \<le> 0"
    using codeUnitCompare_trans by blast
  have now: "(0::int) < 100000" by simp
  from dashboard_sorted[OF total trans now, of default_config four_cards]
  show ?thesis by simp
qed

section \<open>One card for every source of a report\<close>



lemma two_groups_state:
  assumes p: "p = \<lparr>machine_id = mid, machine_name = Str nm, machine_fingerprint = Str fpv,
                   report_tasks = ts\<rparr>"
    and mid: "mid \<noteq> []" "\<not> js_whitespace (hd mid)"
    and split: "splitTasksBySource (dedupeIncomingTasks ts) = [g1, g2]"
    and tok1: "normalizeSourceToken (normalizeTaskSource (g_source g1)) \<noteq> []"
    and tok2: "normalizeSourceToken (normalizeTaskSource (g_source g2)) \<noteq> []"
    and toks: "normalizeSourceToken (normalizeTaskSource (g_source g1)) \<noteq>
               normalizeSourceToken (normalizeTaskSource (g_source g2))"
    and low1: "toLowerCase (normalizeAgentName nm mid) \<noteq>
               toLowerCase (normalizeTaskSource (g_source g1))"
    and low2: "toLowerCase (normalizeAgentName nm mid) \<noteq>
               toLowerCase (normalizeTaskSource (g_source g2))"
    and ids: "distinct (map rt_id (g_tasks g1))" "distinct (map rt_id (g_tasks g2))"
  shows "\<exists>d. snd (postReport cfg now empty_db p) = saveDB cfg now d \<and>
      machines d =
        [freshCard now mid
           (normalizeMachineFingerprint fpv mid)
           (mid @ ''::'' @ normalizeSourceToken (normalizeTaskSource (g_source g1)))
           (normalizeAgentName nm mid @ middle_dot @
              normalizeTaskSource (g_source g1)),
         freshCard now mid
           (normalizeMachineFingerprint fpv mid)
           (mid @ ''::'' @ normalizeSourceToken (normalizeTaskSource (g_source g2)))
           (normalizeAgentName nm mid @ middle_dot @
              normalizeTaskSource (g_source g2))] \<and>
      map (\<lambda>t. (t_machine_id t, t_id t)) (tasks d) =
        map (\<lambda>t. (mid @ ''::'' @
                     normalizeSourceToken (normalizeTaskSource (g_source g1)), rt_id t))
          (g_tasks g1) @
        map (\<lambda>t. (mid @ ''::'' @
                     normalizeSourceToken (normalizeTaskSource (g_source g2)), rt_id t))
          (g_tasks g2)"
proof -
  define N where "N = normalizeAgentName nm mid"
  define F where "F = normalizeMachineFingerprint fpv mid"
  define s1 where "s1 = normalizeTaskSource (g_source g1)"
  define s2 where "s2 = normalizeTaskSource (g_source g2)"
  define c1 where "c1 = mid @ ''::'' @ normalizeSourceToken s1"
  define c2 where "c2 = mid @ ''::'' @ normalizeSourceToken s2"
  define n1 where "n1 = N @ middle_dot @ s1"
  define n2 where "n2 = N @ middle_dot @ s2"
  note defs = N_def F_def s1_def s2_def c1_def c2_def n1_def n2_def
  have s1ne: "s1 \<noteq> []" using tok1 by (auto simp: s1_def normalizeSourceToken_def)
  have s2ne: "s2 \<noteq> []" using tok2 by (auto simp: s2_def normalizeSourceToken_def)
  have name1: "composeMachineAgentName N s1 = n1" "\<And>y. normalizeAgentName n1 y = n1"
    unfolding n1_def
    using source_name[OF N_def s1_def s1ne] low1 by (simp_all add: N_def s1_def)
  have name2: "composeMachineAgentName N s2 = n2" "\<And>y. normalizeAgentName n2 y = n2"
    unfolding n2_def
    using source_name[OF N_def s2_def s2ne] low2 by (simp_all add: N_def s2_def)
  have tr1: "trim c1 = c1" unfolding c1_def s1_def
    by (rule source_id_trimmed[OF mid tok1[unfolded normalizeTaskSource_idem]])
  have tr2: "trim c2 = c2" unfolding c2_def s2_def
    by (rule source_id_trimmed[OF mid tok2[unfolded normalizeTaskSource_idem]])
  have c12: "c1 \<noteq> c2" using toks by (simp add: c1_def c2_def s1_def s2_def)
  have s12: "s1 \<noteq> s2" using toks by (auto simp: s1_def s2_def)
  have n12: "n1 \<noteq> n2" using s12 by (simp add: n1_def n2_def)
  have gid1: "\<forall>t\<in>set (g_tasks g1). rt_id t \<noteq> []"
    using split_ids[of g1 "dedupeIncomingTasks ts"] split by simp
  have gid2: "\<forall>t\<in>set (g_tasks g2). rt_id t \<noteq> []"
    using split_ids[of g2 "dedupeIncomingTasks ts"] split by simp
  let ?r1 = "reportGroup cfg now mid N F (empty_db, mid) g1"
  have r1: "snd ?r1 = c1 \<and>
      machines (fst ?r1) = machines empty_db @ [freshCard now mid F c1 n1] \<and>
      map (\<lambda>t. (t_machine_id t, t_id t)) (tasks (fst ?r1)) =
        map (\<lambda>t. (t_machine_id t, t_id t)) (tasks empty_db) @
        map (\<lambda>t. (c1, rt_id t)) (g_tasks g1)"
  proof (rule reportGroup_fresh)
    show "normalizeSourceToken (normalizeTaskSource (g_source g1)) \<noteq> []" by (rule tok1)
    show "c1 = mid @ ''::'' @ normalizeSourceToken (normalizeTaskSource (g_source g1))"
      by (simp add: c1_def s1_def)
    show "n1 = composeMachineAgentName N (normalizeTaskSource (g_source g1))"
      using name1(1) by (simp add: s1_def)
    show "\<And>x. normalizeAgentName n1 x = n1" by (rule name1(2))
    show "trim c1 = c1" by (rule tr1)
    show "\<forall>m\<in>set (machines empty_db). m_id m \<noteq> c1 \<and>
            normalizeAgentName (m_name m) (m_id m) \<noteq> n1" by (simp add: empty_db_def)
    show "\<forall>tt\<in>set (tasks empty_db). t_machine_id tt \<noteq> c1" by (simp add: empty_db_def)
    show "distinct (map rt_id (g_tasks g1))" by (rule ids(1))
    show "\<forall>t\<in>set (g_tasks g1). rt_id t \<noteq> []" by (rule gid1)
  qed
  obtain dA where dA: "?r1 = (dA, c1)" using r1 by (cases ?r1) simp
  from r1 dA have mA: "machines dA = [freshCard now mid F c1 n1]"
    and kA: "map (\<lambda>t. (t_machine_id t, t_id t)) (tasks dA) = map (\<lambda>t. (c1, rt_id t)) (g_tasks g1)"
    by (simp_all add: empty_db_def)
  let ?r2 = "reportGroup cfg now mid N F (dA, c1) g2"
  have r2: "snd ?r2 = c2 \<and>
      machines (fst ?r2) = machines dA @ [freshCard now mid F c2 n2] \<and>
      map (\<lambda>t. (t_machine_id t, t_id t)) (tasks (fst ?r2)) =
        map (\<lambda>t. (t_machine_id t, t_id t)) (tasks dA) @
        map (\<lambda>t. (c2, rt_id t)) (g_tasks g2)"
  proof (rule reportGroup_fresh)
    show "normalizeSourceToken (normalizeTaskSource (g_source g2)) \<noteq> []" by (rule tok2)
    show "c2 = mid @ ''::'' @ normalizeSourceToken (normalizeTaskSource (g_source g2))"
      by (simp add: c2_def s2_def)
    show "n2 = composeMachineAgentName N (normalizeTaskSource (g_source g2))"
      using name2(1) by (simp add: s2_def)
    show "\<And>x. normalizeAgentName n2 x = n2" by (rule name2(2))
    show "trim c2 = c2" by (rule tr2)
    show "\<forall>m\<in>set (machines dA). m_id m \<noteq> c2 \<and>
            normalizeAgentName (m_name m) (m_id m) \<noteq> n2"
      unfolding mA using c12 n12 name1(2) by simp
    show "\<forall>tt\<in>set (tasks dA). t_machine_id tt \<noteq> c2"
    proof
      fix tt assume "tt \<in> set (tasks dA)"
      then have "(t_machine_id tt, t_id tt) \<in> set (map (\<lambda>t. (t_machine_id t, t_id t)) (tasks dA))"
        by force
      then show "t_machine_id tt \<noteq> c2" unfolding kA using c12 by auto
    qed
    show "distinct (map rt_id (g_tasks g2))" by (rule ids(2))
    show "\<forall>t\<in>set (g_tasks g2). rt_id t \<noteq> []" by (rule gid2)
  qed
  have post: "snd (postReport cfg now empty_db p) = saveDB cfg now (fst ?r2)"
    using mid(1) split dA by (simp add: p postReport_def Let_def N_def F_def)
  show ?thesis
  proof (intro exI[of _ "fst ?r2"] conjI)
    show "snd (postReport cfg now empty_db p) = saveDB cfg now (fst ?r2)" by (rule post)
    show "machines (fst ?r2) =
        [freshCard now mid
           (normalizeMachineFingerprint fpv mid)
           (mid @ ''::'' @ normalizeSourceToken (normalizeTaskSource (g_source g1)))
           (normalizeAgentName nm mid @ middle_dot @
              normalizeTaskSource (g_source g1)),
         freshCard now mid
           (normalizeMachineFingerprint fpv mid)
           (mid @ ''::'' @ normalizeSourceToken (normalizeTaskSource (g_source g2)))
           (normalizeAgentName nm mid @ middle_dot @
              normalizeTaskSource (g_source g2))]"
      using r2 mA by (simp add: defs)
    show "map (\<lambda>t. (t_machine_id t, t_id t)) (tasks (fst ?r2)) =
        map (\<lambda>t. (mid @ ''::'' @
                     normalizeSourceToken (normalizeTaskSource (g_source g1)), rt_id t))
          (g_tasks g1) @
        map (\<lambda>t. (mid @ ''::'' @
                     normalizeSourceToken (normalizeTaskSource (g_source g2)), rt_id t))
          (g_tasks g2)"
      using r2 kA by (simp add: defs)
  qed
qed


lemma two_cards_rows:
  assumes m: "machines d = [freshCard now mid F c1 n1, freshCard now mid F c2 n2]"
    and F: "\<And>g. normalizeMachineFingerprint F g = F"
    and n: "\<And>y. normalizeAgentName n1 y = n1" "\<And>y. normalizeAgentName n2 y = n2" "n1 \<noteq> n2"
    and c: "c1 \<noteq> []" "c2 \<noteq> []" "c1 \<noteq> c2"
    and wf: "(\<forall>t\<in>set (tasks d). t_id t \<noteq> [] \<and> t_machine_id t \<noteq> []) \<and>
             distinct (map (\<lambda>t. taskKey (t_machine_id t) (t_id t)) (tasks d))"
    and keys: "map (\<lambda>t. (t_machine_id t, t_id t)) (tasks d) =
               map (\<lambda>t. (c1, rt_id t)) a @ map (\<lambda>t. (c2, rt_id t)) b"
  shows "mset (map (\<lambda>r. (row_id r, row_agent_name r, row_display_title r, row_total_tasks r))
                 (getDashboard cfg localeCompare nowMs (saveDB cfg now d))) =
         {#(c1, n1, n1, length a), (c2, n2, n2, length b)#}"
proof -
  let ?ms = "[freshCard now mid F c1 n1, freshCard now mid F c2 n2]"
  have k: "machineKey (freshCard now mid F c1 n1) \<noteq> machineKey (freshCard now mid F c2 n2)"
    using n(3) by (simp add: machineKey_def machineIdentityKey_def F n(1,2))
  have sm: "machines (saveDB cfg now d) = map (storedMachine now) ?ms"
    unfolding saveDB_def ensureDBShape_def json_roundtrip_def m
    using dedupeMachines_distinct[of ?ms now] c(1,2) k by simp
  have st: "tasks (saveDB cfg now d) = map (\<lambda>t. json_task (storedTask cfg t)) (tasks d)"
    unfolding saveDB_def ensureDBShape_def json_roundtrip_def
    using dedupeStoredTasks_distinct[of "tasks d" cfg] wf by (simp add: comp_def)
  let ?ms' = "map (storedMachine now) ?ms"
  let ?ts' = "map (\<lambda>t. json_task (storedTask cfg t)) (tasks d)"
  have lm: "machines (loadDB cfg nowMs (saveDB cfg now d)) = map (storedMachine nowMs) ?ms'"
    unfolding loadDB_def ensureDBShape_def sm
    using dedupeMachines_distinct[of ?ms' nowMs] c(1,2) k by simp
  have wf': "(\<forall>t\<in>set ?ts'. t_id t \<noteq> [] \<and> t_machine_id t \<noteq> []) \<and>
             distinct (map (\<lambda>t. taskKey (t_machine_id t) (t_id t)) ?ts')"
    using wf by (simp add: comp_def)
  have lt: "tasks (loadDB cfg nowMs (saveDB cfg now d)) = map (storedTask cfg) ?ts'"
    unfolding loadDB_def ensureDBShape_def st
    using dedupeStoredTasks_distinct[of ?ts' cfg] wf' by simp
  define ts2 where "ts2 = map (storedTask cfg) ?ts'"
  define ms2 where "ms2 = map (storedMachine nowMs) ?ms'"
  have keys': "map (\<lambda>t. (t_machine_id t, t_id t)) ts2 =
               map (\<lambda>t. (c1, rt_id t)) a @ map (\<lambda>t. (c2, rt_id t)) b"
    using keys by (simp add: ts2_def comp_def)
  note cnt = count_by_keys[OF keys' c(3)]
  have t1: "composeMachineTitle [] n1 = n1" by (rule composeMachineTitle_plain) (rule n(1))
  have t2: "composeMachineTitle [] n2 = n2" by (rule composeMachineTitle_plain) (rule n(2))
  have dn: "normalizeDisplayName [] = []" by (simp add: normalizeDisplayName_def or_str_def)
  have rows: "map (\<lambda>r. (row_id r, row_agent_name r, row_display_title r, row_total_tasks r))
                (map (dashboardRow cfg nowMs ts2) ms2) =
              [(c1, n1, n1, length a), (c2, n2, n2, length b)]"
    unfolding ms2_def by (simp add: n(1,2) dn t1 t2 cnt)
  have "mset (map (\<lambda>r. (row_id r, row_agent_name r, row_display_title r, row_total_tasks r))
                 (getDashboard cfg localeCompare nowMs (saveDB cfg now d))) =
        mset (map (\<lambda>r. (row_id r, row_agent_name r, row_display_title r, row_total_tasks r))
                (map (dashboardRow cfg nowMs ts2) ms2))"
    unfolding getDashboard_def Let_def lm lt ts2_def ms2_def
    by (simp only: mset_map mset_js_sort)
  then show ?thesis unfolding rows by simp
qed


subsection \<open>Tasks with a source\<close>

lemma set_trim: "set (trim s) \<subseteq> set s"
proof -
  have "set (dropWhile js_whitespace (rev (dropWhile js_whitespace s))) \<subseteq>
        set (rev (dropWhile js_whitespace s))"
    by (auto dest: set_dropWhileD)
  also have "\<dots> \<subseteq> set s" by (auto dest: set_dropWhileD)
  finally show ?thesis by (simp add: trim_def)
qed

lemma normalizeTaskSource_colon:
  "CHR '':'' \<notin> set s \<Longrightarrow> CHR '':'' \<notin> set (normalizeTaskSource s)"
  using set_trim[of s] by (auto simp: normalizeTaskSource_def Let_def)

lemma lower_char_colon: "lower_char c = CHR '':'' \<Longrightarrow> c = CHR '':''"
proof (cases "map_of (zip upper_case_units lower_case_units) c")
  case None
  assume "lower_char c = CHR '':''"
  with None show ?thesis by (simp add: lower_char_def)
next
  case (Some d)
  assume a: "lower_char c = CHR '':''"
  from Some have "(c, d) \<in> set (zip upper_case_units lower_case_units)" by (rule map_of_SomeD)
  then have "d \<in> set lower_case_units" by (rule set_zip_rightD)
  then have "d \<noteq> CHR '':''" by (auto simp: lower_case_units_def)
  with a Some show ?thesis by (simp add: lower_char_def)
qed

lemma toLowerCase_colon: "CHR '':'' \<notin> set s \<Longrightarrow> CHR '':'' \<notin> set (toLowerCase s)"
proof
  assume a: "CHR '':'' \<notin> set s" and "CHR '':'' \<in> set (toLowerCase s)"
  then obtain c where c: "c \<in> set s" "lower_char c = CHR '':''"
    by (auto simp: toLowerCase_def)
  from lower_char_colon[OF c(2)] c(1) a show False by simp
qed

lemma key_suffix:
  assumes "a @ ''::'' @ k = b @ ''::'' @ l" "CHR '':'' \<notin> set k" "CHR '':'' \<notin> set l"
  shows "a = b \<and> k = l"
proof -
  from assms(1) have "rev (a @ ''::'' @ k) = rev (b @ ''::'' @ l)" by simp
  then have e: "rev k @ CHR '':'' # CHR '':'' # rev a = rev l @ CHR '':'' # CHR '':'' # rev b"
    by simp
  have "takeWhile (\<lambda>c. c \<noteq> CHR '':'') (rev k @ CHR '':'' # CHR '':'' # rev a) = rev k"
    by (rule takeWhile_until) (use assms(2) in simp)
  moreover have "takeWhile (\<lambda>c. c \<noteq> CHR '':'') (rev l @ CHR '':'' # CHR '':'' # rev b) = rev l"
    by (rule takeWhile_until) (use assms(3) in simp)
  ultimately have "rev k = rev l" using e by simp
  then have kl: "k = l" by simp
  with assms(1) show ?thesis by simp
qed

lemma taskSource_sourcedTask [simp]:
  "taskSource t \<noteq> [] \<Longrightarrow> taskSource (sourcedTask t) = taskSource t"
  by (simp add: taskSource_def sourcedTask_def or_str_def)

lemma sourcedTask_id [simp]: "rt_id (sourcedTask t) = rt_id t"
  by (simp add: sourcedTask_def)

lemma sourcedTask_idem [simp]:
  "taskSource t \<noteq> [] \<Longrightarrow> sourcedTask (sourcedTask t) = sourcedTask t"
  using taskSource_sourcedTask[of t] by (simp add: sourcedTask_def[of "sourcedTask t"])
     (simp add: sourcedTask_def)

lemma foldl_dedupeIncoming_sources:
  "\<forall>t\<in>set ts. rt_id t \<noteq> [] \<and> taskSource t \<noteq> [] \<Longrightarrow>
   distinct (map (\<lambda>t. rt_id t @ ''::'' @ toLowerCase (taskSource t)) ts) \<Longrightarrow>
   \<forall>t\<in>set ts. rt_id t @ ''::'' @ toLowerCase (taskSource t) \<notin> fst ` set acc \<Longrightarrow>
   foldl dedupeIncomingTasks_step acc ts =
     acc @ map (\<lambda>t. (rt_id t @ ''::'' @ toLowerCase (taskSource t), sourcedTask t)) ts"
proof (induction ts arbitrary: acc)
  case Nil
  show ?case by simp
next
  case (Cons t ts)
  let ?k = "rt_id t @ ''::'' @ toLowerCase (taskSource t)"
  from Cons.prems(3) have fresh: "?k \<notin> fst ` set acc" by simp
  from Cons.prems(1) have p: "rt_id t \<noteq> []" "taskSource t \<noteq> []" by simp_all
  have step: "dedupeIncomingTasks_step acc t = acc @ [(?k, sourcedTask t)]"
    using p map_set_fresh[OF fresh, of "sourcedTask t"]
    by (simp add: dedupeIncomingTasks_step_def Let_def taskSource_def sourcedTask_def)
  have "foldl dedupeIncomingTasks_step (acc @ [(?k, sourcedTask t)]) ts =
        (acc @ [(?k, sourcedTask t)]) @
          map (\<lambda>t. (rt_id t @ ''::'' @ toLowerCase (taskSource t), sourcedTask t)) ts"
  proof (rule Cons.IH)
    show "\<forall>t\<in>set ts. rt_id t \<noteq> [] \<and> taskSource t \<noteq> []" using Cons.prems(1) by simp
    show "distinct (map (\<lambda>t. rt_id t @ ''::'' @ toLowerCase (taskSource t)) ts)"
      using Cons.prems(2) by simp
    show "\<forall>u\<in>set ts. rt_id u @ ''::'' @ toLowerCase (taskSource u) \<notin>
            fst ` set (acc @ [(?k, sourcedTask t)])"
      using Cons.prems(2,3) by (fastforce simp: image_iff)
  qed
  with step show ?case by simp
qed

lemma dedupeIncomingTasks_sources:
  assumes "\<forall>t\<in>set ts. rt_id t \<noteq> [] \<and> taskSource t \<noteq> []"
    and "distinct (map (\<lambda>t. rt_id t @ ''::'' @ toLowerCase (taskSource t)) ts)"
  shows "dedupeIncomingTasks ts = map sourcedTask ts"
  using foldl_dedupeIncoming_sources[OF assms, of "[]"]
  by (simp add: dedupeIncomingTasks_def comp_def)


subsection \<open>The groups of a report with two sources\<close>

lemma split_step_first:
  assumes "rt_id u \<noteq> []" "taskSource u = Sa" "Sa \<noteq> []"
  shows "splitTasksBySource_step [] u =
           [(toLowerCase Sa, \<lparr>g_source = Sa, g_tasks = [sourcedTask u]\<rparr>)]"
  using assms(1,3) assms(2)[unfolded taskSource_def]
  by (simp add: splitTasksBySource_step_def Let_def sourcedTask_def taskSource_def)

lemma split_step_one:
  assumes "rt_id u \<noteq> []" "Sa \<noteq> []" "Sb \<noteq> []" "toLowerCase Sa \<noteq> toLowerCase Sb"
  shows "taskSource u = Sa \<Longrightarrow>
         splitTasksBySource_step [(toLowerCase Sa, \<lparr>g_source = Sa, g_tasks = A\<rparr>)] u =
           [(toLowerCase Sa, \<lparr>g_source = Sa, g_tasks = A @ [sourcedTask u]\<rparr>)]"
    and "taskSource u = Sb \<Longrightarrow>
         splitTasksBySource_step [(toLowerCase Sa, \<lparr>g_source = Sa, g_tasks = A\<rparr>)] u =
           [(toLowerCase Sa, \<lparr>g_source = Sa, g_tasks = A\<rparr>),
            (toLowerCase Sb, \<lparr>g_source = Sb, g_tasks = [sourcedTask u]\<rparr>)]"
proof -
  assume a: "taskSource u = Sa"
  show "splitTasksBySource_step [(toLowerCase Sa, \<lparr>g_source = Sa, g_tasks = A\<rparr>)] u =
           [(toLowerCase Sa, \<lparr>g_source = Sa, g_tasks = A @ [sourcedTask u]\<rparr>)]"
    using assms a[unfolded taskSource_def]
    by (simp add: splitTasksBySource_step_def Let_def sourcedTask_def taskSource_def)
next
  assume b: "taskSource u = Sb"
  show "splitTasksBySource_step [(toLowerCase Sa, \<lparr>g_source = Sa, g_tasks = A\<rparr>)] u =
           [(toLowerCase Sa, \<lparr>g_source = Sa, g_tasks = A\<rparr>),
            (toLowerCase Sb, \<lparr>g_source = Sb, g_tasks = [sourcedTask u]\<rparr>)]"
    using assms b[unfolded taskSource_def]
    by (simp add: splitTasksBySource_step_def Let_def sourcedTask_def taskSource_def)
qed

lemma split_step_pair:
  assumes "rt_id u \<noteq> []" "Sa \<noteq> []" "Sb \<noteq> []" "toLowerCase Sa \<noteq> toLowerCase Sb"
  shows "taskSource u = Sa \<Longrightarrow>
         splitTasksBySource_step
           [(toLowerCase Sa, \<lparr>g_source = Sa, g_tasks = A\<rparr>),
            (toLowerCase Sb, \<lparr>g_source = Sb, g_tasks = B\<rparr>)] u =
           [(toLowerCase Sa, \<lparr>g_source = Sa, g_tasks = A @ [sourcedTask u]\<rparr>),
            (toLowerCase Sb, \<lparr>g_source = Sb, g_tasks = B\<rparr>)]"
    and "taskSource u = Sb \<Longrightarrow>
         splitTasksBySource_step
           [(toLowerCase Sa, \<lparr>g_source = Sa, g_tasks = A\<rparr>),
            (toLowerCase Sb, \<lparr>g_source = Sb, g_tasks = B\<rparr>)] u =
           [(toLowerCase Sa, \<lparr>g_source = Sa, g_tasks = A\<rparr>),
            (toLowerCase Sb, \<lparr>g_source = Sb, g_tasks = B @ [sourcedTask u]\<rparr>)]"
proof -
  assume a: "taskSource u = Sa"
  show "splitTasksBySource_step
           [(toLowerCase Sa, \<lparr>g_source = Sa, g_tasks = A\<rparr>),
            (toLowerCase Sb, \<lparr>g_source = Sb, g_tasks = B\<rparr>)] u =
           [(toLowerCase Sa, \<lparr>g_source = Sa, g_tasks = A @ [sourcedTask u]\<rparr>),
            (toLowerCase Sb, \<lparr>g_source = Sb, g_tasks = B\<rparr>)]"
    using assms a[unfolded taskSource_def]
    by (simp add: splitTasksBySource_step_def Let_def sourcedTask_def taskSource_def)
next
  assume b: "taskSource u = Sb"
  show "splitTasksBySource_step
           [(toLowerCase Sa, \<lparr>g_source = Sa, g_tasks = A\<rparr>),
            (toLowerCase Sb, \<lparr>g_source = Sb, g_tasks = B\<rparr>)] u =
           [(toLowerCase Sa, \<lparr>g_source = Sa, g_tasks = A\<rparr>),
            (toLowerCase Sb, \<lparr>g_source = Sb, g_tasks = B @ [sourcedTask u]\<rparr>)]"
    using assms b[unfolded taskSource_def]
    by (simp add: splitTasksBySource_step_def Let_def sourcedTask_def taskSource_def)
qed

lemma foldl_split_pair:
  assumes "Sa \<noteq> []" "Sb \<noteq> []" "toLowerCase Sa \<noteq> toLowerCase Sb"
  shows "\<forall>u\<in>set us. rt_id u \<noteq> [] \<and> (taskSource u = Sa \<or> taskSource u = Sb) \<Longrightarrow>
         foldl splitTasksBySource_step
           [(toLowerCase Sa, \<lparr>g_source = Sa, g_tasks = A\<rparr>),
            (toLowerCase Sb, \<lparr>g_source = Sb, g_tasks = B\<rparr>)] us =
           [(toLowerCase Sa,
             \<lparr>g_source = Sa,
              g_tasks = A @ map sourcedTask (filter (\<lambda>u. taskSource u = Sa) us)\<rparr>),
            (toLowerCase Sb,
             \<lparr>g_source = Sb,
              g_tasks = B @ map sourcedTask (filter (\<lambda>u. taskSource u = Sb) us)\<rparr>)]"
proof (induction us arbitrary: A B)
  case Nil
  show ?case by simp
next
  case (Cons u us)
  from assms(3) have ne: "Sa \<noteq> Sb" by auto
  from Cons.prems have id: "rt_id u \<noteq> []" and src: "taskSource u = Sa \<or> taskSource u = Sb"
    and rest: "\<forall>u\<in>set us. rt_id u \<noteq> [] \<and> (taskSource u = Sa \<or> taskSource u = Sb)"
    by simp_all
  from src show ?case
  proof
    assume a: "taskSource u = Sa"
    show ?thesis
      using Cons.IH[OF rest, of "A @ [sourcedTask u]" B] a ne
      by (simp add: split_step_pair(1)[OF id assms a])
  next
    assume b: "taskSource u = Sb"
    show ?thesis
      using Cons.IH[OF rest, of A "B @ [sourcedTask u]"] b ne
      by (simp add: split_step_pair(2)[OF id assms b])
  qed
qed

lemma foldl_split_one:
  assumes "Sa \<noteq> []" "Sb \<noteq> []" "toLowerCase Sa \<noteq> toLowerCase Sb"
  shows "\<forall>u\<in>set us. rt_id u \<noteq> [] \<and> (taskSource u = Sa \<or> taskSource u = Sb) \<Longrightarrow>
         \<exists>u\<in>set us. taskSource u = Sb \<Longrightarrow>
         foldl splitTasksBySource_step [(toLowerCase Sa, \<lparr>g_source = Sa, g_tasks = A\<rparr>)] us =
           [(toLowerCase Sa,
             \<lparr>g_source = Sa,
              g_tasks = A @ map sourcedTask (filter (\<lambda>u. taskSource u = Sa) us)\<rparr>),
            (toLowerCase Sb,
             \<lparr>g_source = Sb,
              g_tasks = map sourcedTask (filter (\<lambda>u. taskSource u = Sb) us)\<rparr>)]"
proof (induction us arbitrary: A)
  case Nil
  then show ?case by simp
next
  case (Cons u us)
  from assms(3) have ne: "Sa \<noteq> Sb" by auto
  from Cons.prems(1) have id: "rt_id u \<noteq> []" and src: "taskSource u = Sa \<or> taskSource u = Sb"
    and rest: "\<forall>u\<in>set us. rt_id u \<noteq> [] \<and> (taskSource u = Sa \<or> taskSource u = Sb)"
    by simp_all
  from src show ?case
  proof
    assume a: "taskSource u = Sa"
    with Cons.prems(2) ne have ex: "\<exists>u\<in>set us. taskSource u = Sb" by auto
    show ?thesis
      using Cons.IH[OF rest ex, of "A @ [sourcedTask u]"] a ne
      by (simp add: split_step_one(1)[OF id assms a])
  next
    assume b: "taskSource u = Sb"
    show ?thesis
      using foldl_split_pair[OF assms rest, of A "[sourcedTask u]"] b ne
      by (simp add: split_step_one(2)[OF id assms b])
  qed
qed

lemma split_two_sources:
  assumes "Sa \<noteq> []" "Sb \<noteq> []" "toLowerCase Sa \<noteq> toLowerCase Sb"
    and "\<forall>u\<in>set us. rt_id u \<noteq> [] \<and> (taskSource u = Sa \<or> taskSource u = Sb)"
    and "us \<noteq> []" "taskSource (hd us) = Sa" "\<exists>u\<in>set us. taskSource u = Sb"
  shows "splitTasksBySource us =
           [\<lparr>g_source = Sa, g_tasks = map sourcedTask (filter (\<lambda>u. taskSource u = Sa) us)\<rparr>,
            \<lparr>g_source = Sb, g_tasks = map sourcedTask (filter (\<lambda>u. taskSource u = Sb) us)\<rparr>]"
proof -
  from assms(3) have ne: "Sa \<noteq> Sb" by auto
  from assms(5) obtain u vs where us: "us = u # vs" by (cases us) auto
  with assms(4,6) have id: "rt_id u \<noteq> []" and a: "taskSource u = Sa"
    and rest: "\<forall>u\<in>set vs. rt_id u \<noteq> [] \<and> (taskSource u = Sa \<or> taskSource u = Sb)"
    by simp_all
  from assms(7) us a ne have ex: "\<exists>u\<in>set vs. taskSource u = Sb" by auto
  show ?thesis
    unfolding splitTasksBySource_def us
    using foldl_split_one[OF assms(1-3) rest ex, of "[sourcedTask u]"] a ne
    by (simp add: split_step_first[OF id a assms(1)])
qed


subsection \<open>The cards of a report with two sources\<close>

lemma source_cards_ordered:
  assumes mid: "mid \<noteq> []" "\<not> js_whitespace (hd mid)"
    and all: "\<forall>t\<in>set ts. rt_id t \<noteq> [] \<and> (taskSource t = Sa \<or> taskSource t = Sb)"
    and first: "ts \<noteq> []" "taskSource (hd ts) = Sa"
    and other: "\<exists>t\<in>set ts. taskSource t = Sb"
    and ids: "distinct (map rt_id ts)"
    and colon: "CHR '':'' \<notin> set Sa" "CHR '':'' \<notin> set Sb"
    and tok: "normalizeSourceToken Sa \<noteq> []" "normalizeSourceToken Sb \<noteq> []"
      "normalizeSourceToken Sa \<noteq> normalizeSourceToken Sb"
    and low: "toLowerCase (normalizeAgentName nm mid) \<noteq> toLowerCase Sa"
      "toLowerCase (normalizeAgentName nm mid) \<noteq> toLowerCase Sb"
  shows "mset (map (\<lambda>r. (row_id r, row_agent_name r, row_display_title r, row_total_tasks r))
                 (getDashboard cfg localeCompare nowMs
                    (snd (postReport cfg now empty_db
                            \<lparr>machine_id = mid, machine_name = Str nm,
                             machine_fingerprint = Str fpv, report_tasks = ts\<rparr>)))) =
         {#(mid @ ''::'' @ normalizeSourceToken Sa,
            normalizeAgentName nm mid @ middle_dot @ Sa,
            normalizeAgentName nm mid @ middle_dot @ Sa,
            length (filter (\<lambda>t. taskSource t = Sa) ts)),
           (mid @ ''::'' @ normalizeSourceToken Sb,
            normalizeAgentName nm mid @ middle_dot @ Sb,
            normalizeAgentName nm mid @ middle_dot @ Sb,
            length (filter (\<lambda>t. taskSource t = Sb) ts))#}"
proof -
  define N where "N = normalizeAgentName nm mid"
  define F where "F = normalizeMachineFingerprint fpv mid"
  define ka where "ka = normalizeSourceToken Sa"
  define kb where "kb = normalizeSourceToken Sb"
  define A where "A = filter (\<lambda>t. taskSource t = Sa) ts"
  define B where "B = filter (\<lambda>t. taskSource t = Sb) ts"
  define p where "p = \<lparr>machine_id = mid, machine_name = Str nm, machine_fingerprint = Str fpv,
                       report_tasks = ts\<rparr>"
  have Sa: "Sa \<noteq> []" and Sb: "Sb \<noteq> []" using tok(1,2) by auto
  have nSa: "normalizeTaskSource Sa = Sa"
    using first(2) by (auto simp: taskSource_def)
  from other obtain tb where "taskSource tb = Sb" by blast
  then have nSb: "normalizeTaskSource Sb = Sb" by (auto simp: taskSource_def)
  have lower: "toLowerCase Sa \<noteq> toLowerCase Sb"
  proof
    assume "toLowerCase Sa = toLowerCase Sb"
    then have "slugify Sa = slugify Sb" by (simp add: slugify_def)
    then have "normalizeSourceToken Sa = normalizeSourceToken Sb"
      using Sa Sb nSa nSb by (simp add: normalizeSourceToken_def Let_def)
    with tok(3) show False by simp
  qed
  have src: "\<forall>t\<in>set ts. rt_id t \<noteq> [] \<and> taskSource t \<noteq> []" using all Sa Sb by auto
  have inj: "inj_on (\<lambda>t. rt_id t @ ''::'' @ toLowerCase (taskSource t)) (set ts)"
  proof (rule inj_onI)
    fix t u assume t: "t \<in> set ts" and u: "u \<in> set ts"
      and e: "rt_id t @ ''::'' @ toLowerCase (taskSource t) =
              rt_id u @ ''::'' @ toLowerCase (taskSource u)"
    have free: "CHR '':'' \<notin> set (toLowerCase (taskSource v))" if "v \<in> set ts" for v
    proof -
      from all that have "taskSource v = Sa \<or> taskSource v = Sb" by simp
      with colon have "CHR '':'' \<notin> set (taskSource v)" by auto
      then show ?thesis by (rule toLowerCase_colon)
    qed
    have "CHR '':'' \<notin> set (toLowerCase (taskSource t))" by (rule free[OF t])
    moreover have "CHR '':'' \<notin> set (toLowerCase (taskSource u))" by (rule free[OF u])
    ultimately have "rt_id t = rt_id u" using key_suffix[OF e] by simp
    with ids t u show "t = u" by (auto simp: distinct_map inj_on_def)
  qed
  have keys: "distinct (map (\<lambda>t. rt_id t @ ''::'' @ toLowerCase (taskSource t)) ts)"
    using ids inj by (simp add: distinct_map)
  have ded: "dedupeIncomingTasks ts = map sourcedTask ts"
    by (rule dedupeIncomingTasks_sources[OF src keys])
  let ?us = "map sourcedTask ts"
  have us_all: "\<forall>u\<in>set ?us. rt_id u \<noteq> [] \<and> (taskSource u = Sa \<or> taskSource u = Sb)"
    using all src by auto
  have us_first: "taskSource (hd ?us) = Sa"
    using first src by (cases ts) auto
  have us_other: "\<exists>u\<in>set ?us. taskSource u = Sb"
    using other src by auto
  have flt: "filter (\<lambda>u. taskSource u = S) ?us = map sourcedTask (filter (\<lambda>t. taskSource t = S) ts)"
    for S
    using src by (induction ts) auto
  let ?ga = "\<lparr>g_source = Sa, g_tasks = map sourcedTask (map sourcedTask A)\<rparr>"
  let ?gb = "\<lparr>g_source = Sb, g_tasks = map sourcedTask (map sourcedTask B)\<rparr>"
  have split: "splitTasksBySource (dedupeIncomingTasks ts) = [?ga, ?gb]"
    unfolding ded
    using split_two_sources[OF Sa Sb lower us_all _ us_first us_other] first(1)
    by (simp add: flt A_def B_def)
  have idsA: "distinct (map rt_id (g_tasks ?ga))"
    using ids by (simp add: comp_def A_def distinct_map_filter)
  have idsB: "distinct (map rt_id (g_tasks ?gb))"
    using ids by (simp add: comp_def B_def distinct_map_filter)
  have "\<exists>d. snd (postReport cfg now empty_db p) = saveDB cfg now d \<and>
      machines d =
        [freshCard now mid (normalizeMachineFingerprint fpv mid)
           (mid @ ''::'' @ normalizeSourceToken (normalizeTaskSource (g_source ?ga)))
           (normalizeAgentName nm mid @ middle_dot @ normalizeTaskSource (g_source ?ga)),
         freshCard now mid (normalizeMachineFingerprint fpv mid)
           (mid @ ''::'' @ normalizeSourceToken (normalizeTaskSource (g_source ?gb)))
           (normalizeAgentName nm mid @ middle_dot @ normalizeTaskSource (g_source ?gb))] \<and>
      map (\<lambda>t. (t_machine_id t, t_id t)) (tasks d) =
        map (\<lambda>t. (mid @ ''::'' @
                     normalizeSourceToken (normalizeTaskSource (g_source ?ga)), rt_id t))
          (g_tasks ?ga) @
        map (\<lambda>t. (mid @ ''::'' @
                     normalizeSourceToken (normalizeTaskSource (g_source ?gb)), rt_id t))
          (g_tasks ?gb)"
    by (rule two_groups_state[OF p_def mid split _ _ _ _ _ idsA idsB])
       (use tok low nSa nSb in simp_all)
  then obtain d where post: "snd (postReport cfg now empty_db p) = saveDB cfg now d"
    and ms: "machines d =
        [freshCard now mid F (mid @ ''::'' @ ka) (N @ middle_dot @ Sa),
         freshCard now mid F (mid @ ''::'' @ kb) (N @ middle_dot @ Sb)]"
    and ks: "map (\<lambda>t. (t_machine_id t, t_id t)) (tasks d) =
        map (\<lambda>t. (mid @ ''::'' @ normalizeSourceToken Sa, rt_id t)) (g_tasks ?ga) @
        map (\<lambda>t. (mid @ ''::'' @ normalizeSourceToken Sb, rt_id t)) (g_tasks ?gb)"
    by (auto simp: nSa nSb N_def F_def ka_def kb_def)
  have trm: "trim mid \<noteq> []" by (rule trim_nonempty[OF mid])
  have Ffix: "\<And>g. normalizeMachineFingerprint F g = F"
    unfolding F_def
    by (rule normalizeMachineFingerprint_idem)
       (use trm in \<open>simp add: normalizeMachineFingerprint_def Let_def\<close>)
  note na = source_name[OF N_def nSa[symmetric] Sa low(1)[folded N_def]]
  note nb = source_name[OF N_def nSb[symmetric] Sb low(2)[folded N_def]]
  have names: "N @ middle_dot @ Sa \<noteq> N @ middle_dot @ Sb"
    using lower by auto
  have idsne: "\<forall>t\<in>set (g_tasks ?ga). rt_id t \<noteq> []" "\<forall>t\<in>set (g_tasks ?gb). rt_id t \<noteq> []"
    using all by (auto simp: A_def B_def)
  have wf: "(\<forall>t\<in>set (tasks d). t_id t \<noteq> [] \<and> t_machine_id t \<noteq> []) \<and>
            distinct (map (\<lambda>t. taskKey (t_machine_id t) (t_id t)) (tasks d))"
    by (rule keys_wellformed[OF ks tok(3) idsA idsB idsne])
  have rows: "mset (map (\<lambda>r. (row_id r, row_agent_name r, row_display_title r, row_total_tasks r))
                 (getDashboard cfg localeCompare nowMs (saveDB cfg now d))) =
         {#(mid @ ''::'' @ ka, N @ middle_dot @ Sa, N @ middle_dot @ Sa, length (g_tasks ?ga)),
           (mid @ ''::'' @ kb, N @ middle_dot @ Sb, N @ middle_dot @ Sb, length (g_tasks ?gb))#}"
  proof (rule two_cards_rows[OF ms Ffix na(2) nb(2) names _ _ _ wf])
    show "mid @ ''::'' @ ka \<noteq> []" using mid(1) by simp
    show "mid @ ''::'' @ kb \<noteq> []" using mid(1) by simp
    show "mid @ ''::'' @ ka \<noteq> mid @ ''::'' @ kb" using tok(3) by (simp add: ka_def kb_def)
    show "map (\<lambda>t. (t_machine_id t, t_id t)) (tasks d) =
        map (\<lambda>t. (mid @ ''::'' @ ka, rt_id t)) (g_tasks ?ga) @
        map (\<lambda>t. (mid @ ''::'' @ kb, rt_id t)) (g_tasks ?gb)"
      using ks by (simp add: ka_def kb_def)
  qed
  show ?thesis
    using rows unfolding post[symmetric] p_def
    by (simp add: N_def ka_def kb_def A_def B_def)
qed


text \<open>
  Claim C5, as the source has it. A machine whose id does not begin with white space
  reports, on the empty store, tasks that all have an id, with pairwise different ids,
  and that carry one of two normalised sources, each of them at least once. The sources
  contain no colon, their slugs are not empty and differ, and neither source is the name
  of the machine up to case. Then the summary shows exactly two cards: the card of a
  source has the id \<open>machineId::slug\<close>, its name and its title are
  \<open>name \<cdot> source\<close>, and its \<open>total_tasks\<close> is the number of tasks of the report
  that carry the source.
\<close>

theorem source_split_cards:
  assumes "mid \<noteq> []" "\<not> js_whitespace (hd mid)"
    and "\<forall>t\<in>set ts. rt_id t \<noteq> [] \<and> (taskSource t = S1 \<or> taskSource t = S2)"
    and "\<exists>t\<in>set ts. taskSource t = S1" "\<exists>t\<in>set ts. taskSource t = S2"
    and "distinct (map rt_id ts)"
    and "CHR '':'' \<notin> set S1" "CHR '':'' \<notin> set S2"
    and "normalizeSourceToken S1 \<noteq> []" "normalizeSourceToken S2 \<noteq> []"
      "normalizeSourceToken S1 \<noteq> normalizeSourceToken S2"
    and "toLowerCase (normalizeAgentName nm mid) \<noteq> toLowerCase S1"
      "toLowerCase (normalizeAgentName nm mid) \<noteq> toLowerCase S2"
  shows "mset (map (\<lambda>r. (row_id r, row_agent_name r, row_display_title r, row_total_tasks r))
                 (getDashboard cfg localeCompare nowMs
                    (snd (postReport cfg now empty_db
                            \<lparr>machine_id = mid, machine_name = Str nm,
                             machine_fingerprint = Str fp, report_tasks = ts\<rparr>)))) =
         {#(mid @ ''::'' @ normalizeSourceToken S1,
            normalizeAgentName nm mid @ middle_dot @ S1,
            normalizeAgentName nm mid @ middle_dot @ S1,
            length (filter (\<lambda>t. taskSource t = S1) ts)),
           (mid @ ''::'' @ normalizeSourceToken S2,
            normalizeAgentName nm mid @ middle_dot @ S2,
            normalizeAgentName nm mid @ middle_dot @ S2,
            length (filter (\<lambda>t. taskSource t = S2) ts))#}"
proof -
  from assms(4) have ne: "ts \<noteq> []" by auto
  with assms(3) have "taskSource (hd ts) = S1 \<or> taskSource (hd ts) = S2" by simp
  then show ?thesis
  proof
    assume first: "taskSource (hd ts) = S1"
    show ?thesis
      by (rule source_cards_ordered[OF assms(1,2,3) ne first assms(5,6,7,8,9,10,11,12,13)])
  next
    assume first: "taskSource (hd ts) = S2"
    have all: "\<forall>t\<in>set ts. rt_id t \<noteq> [] \<and> (taskSource t = S2 \<or> taskSource t = S1)"
      using assms(3) by auto
    have "mset (map (\<lambda>r. (row_id r, row_agent_name r, row_display_title r, row_total_tasks r))
                 (getDashboard cfg localeCompare nowMs
                    (snd (postReport cfg now empty_db
                            \<lparr>machine_id = mid, machine_name = Str nm,
                             machine_fingerprint = Str fp, report_tasks = ts\<rparr>)))) =
         {#(mid @ ''::'' @ normalizeSourceToken S2,
            normalizeAgentName nm mid @ middle_dot @ S2,
            normalizeAgentName nm mid @ middle_dot @ S2,
            length (filter (\<lambda>t. taskSource t = S2) ts)),
           (mid @ ''::'' @ normalizeSourceToken S1,
            normalizeAgentName nm mid @ middle_dot @ S1,
            normalizeAgentName nm mid @ middle_dot @ S1,
            length (filter (\<lambda>t. taskSource t = S1) ts))#}"
      by (rule source_cards_ordered[OF assms(1,2) all ne first assms(4,6,8,7,10,9)
            assms(11)[symmetric] assms(13,12)])
    then show ?thesis by (simp add: add_mset_commute)
  qed
qed


theorem source_split_cards_witness:
  "mset (map (\<lambda>r. (row_id r, row_agent_name r, row_display_title r, row_total_tasks r))
            (getDashboard default_config codeUnitCompare 2000
               (snd (postReport default_config 1000 empty_db
                  (sources_report [sourced_task ''a'' ''Codex'', sourced_task ''b'' ''OpenCode'',
                                   sourced_task ''c'' ''codex'']))))) =
   {#(''m::codex'', ''Mac'' @ middle_dot @ ''Codex'', ''Mac'' @ middle_dot @ ''Codex'', 2),
     (''m::opencode'', ''Mac'' @ middle_dot @ ''OpenCode'', ''Mac'' @ middle_dot @ ''OpenCode'',
      1)#}"
proof -
  let ?ts = "[sourced_task ''a'' ''Codex'', sourced_task ''b'' ''OpenCode'',
              sourced_task ''c'' ''codex'']"
  have h1: "''m'' \<noteq> []" "\<not> js_whitespace (hd ''m'')"
    by (simp_all add: js_whitespace_def)
  have h2: "\<forall>t\<in>set ?ts. rt_id t \<noteq> [] \<and> (taskSource t = ''Codex'' \<or> taskSource t = ''OpenCode'')"
    by code_simp
  have h3: "\<exists>t\<in>set ?ts. taskSource t = ''Codex''" "\<exists>t\<in>set ?ts. taskSource t = ''OpenCode''"
    by code_simp+
  have h4: "distinct (map rt_id ?ts)" by code_simp
  have h5: "CHR '':'' \<notin> set ''Codex''" "CHR '':'' \<notin> set ''OpenCode''" by simp_all
  have tokens: "normalizeSourceToken ''Codex'' = ''codex''"
    "normalizeSourceToken ''OpenCode'' = ''opencode''"
    by code_simp+
  have h6: "normalizeSourceToken ''Codex'' \<noteq> []" "normalizeSourceToken ''OpenCode'' \<noteq> []"
    "normalizeSourceToken ''Codex'' \<noteq> normalizeSourceToken ''OpenCode''"
    unfolding tokens by simp_all
  have name: "normalizeAgentName ''Mac'' ''m'' = ''Mac''" by code_simp
  have h7: "toLowerCase (normalizeAgentName ''Mac'' ''m'') \<noteq> toLowerCase ''Codex''"
    "toLowerCase (normalizeAgentName ''Mac'' ''m'') \<noteq> toLowerCase ''OpenCode''"
    by code_simp+
  have counts: "length (filter (\<lambda>t. taskSource t = ''Codex'') ?ts) = 2"
    "length (filter (\<lambda>t. taskSource t = ''OpenCode'') ?ts) = 1"
    by code_simp+
  from source_split_cards[OF h1 h2 h3 h4 h5 h6 h7, of default_config codeUnitCompare 2000 1000 "[]"]
  show ?thesis
    unfolding tokens name counts sources_report_def by simp
qed

text \<open>Two reports at which the claim fails. The sources \<open>X\<close> and \<open>x\<close> differ but fall into
  one group, so there is one card with both tasks. The sources \<open>a b\<close> and \<open>a-b\<close> differ
  also up to case but have the same slug, and the second card gets an id with a suffix.\<close>

theorem source_split_cards_counterexample:
  "taskSource (sourced_task ''a'' ''X'') = ''X'' \<and> taskSource (sourced_task ''b'' ''x'') = ''x'' \<and>
   map (\<lambda>r. (row_id r, row_agent_name r, row_total_tasks r))
     (getDashboard default_config codeUnitCompare 2000
        (snd (postReport default_config 1000 empty_db
           (sources_report [sourced_task ''a'' ''X'', sourced_task ''b'' ''x''])))) =
     [(''m::x'', ''Mac'' @ middle_dot @ ''X'', 2)] \<and>
   map (\<lambda>r. (row_id r, row_agent_name r, row_total_tasks r))
     (getDashboard default_config codeUnitCompare 2000
        (snd (postReport default_config 1000 empty_db
           (sources_report [sourced_task ''a'' ''a b'', sourced_task ''b'' ''a-b''])))) =
     [(''m::a-b'', ''Mac'' @ middle_dot @ ''a b'', 1),
      (''m::a-b::mac-a-b-1'', ''Mac'' @ middle_dot @ ''a-b'', 1)]"
  by code_simp


end
